theory Spec2Isabelle
  imports Complex_Main
begin

section \<open>Gesture media controller: the per-frame decision pipeline\<close>

text \<open>
  The development embeds \<^verbatim>\<open>gesture_media_control.py\<close>: the finger-state extractor
  \<^verbatim>\<open>fingers_up\<close>, the classifier \<^verbatim>\<open>detect_gesture\<close>, the action mapping
  \<^verbatim>\<open>perform_action_for_gesture\<close> and the body of the \<^verbatim>\<open>while\<close> loop of \<^verbatim>\<open>main\<close>
  (smoothing over a bounded deque, cooldown and change-of-gesture gate).

  Gesture labels are the Python strings of the source. Landmark coordinates and the
  readings of \<^verbatim>\<open>time.time()\<close> are modelled as real numbers. Capturing frames, the pose
  model, drawing and the keyboard controller are outside the embedding: a frame is given by
  what the pose model returned for it and by the clock reading taken in it.
\<close>

subsection \<open>Exceptions as values\<close>

datatype error = IndexError | ValueError

definition and_then :: "error + 'a \<Rightarrow> ('a \<Rightarrow> error + 'b) \<Rightarrow> error + 'b" where
  "and_then r f = (case r of Inl e \<Rightarrow> Inl e | Inr v \<Rightarrow> f v)"

text \<open>Evaluating a list of computations from left to right; the first exception wins.\<close>

fun sequence :: "(error + 'a) list \<Rightarrow> error + 'a list" where
  "sequence [] = Inr []"
| "sequence (r # rs) = and_then r (\<lambda>v. and_then (sequence rs) (\<lambda>vs. Inr (v # vs)))"

subsection \<open>Settings\<close>

definition SMOOTHING_FRAMES :: nat where
  "SMOOTHING_FRAMES = 6"

definition ACTION_COOLDOWN :: real where
  "ACTION_COOLDOWN = 0.8"

definition TIP_IDS :: "nat list" where
  "TIP_IDS = [4, 8, 12, 16, 20]"

subsection \<open>Hand observations\<close>

record point =
  px :: real
  py :: real

text \<open>
  What the pose model reports for one hand: \<^verbatim>\<open>hand_landmarks.landmark\<close> and the label
  \<^verbatim>\<open>multi_handedness[0].classification[0].label\<close>.
\<close>

record hand =
  landmark :: "point list"
  handedness :: string

text \<open>
  One iteration's inputs: the hand (if \<^verbatim>\<open>results.multi_hand_landmarks and
  results.multi_handedness\<close> is true) and the value \<^verbatim>\<open>time.time()\<close> returns for \<^verbatim>\<open>now\<close>.
\<close>

record frame =
  frame_hand :: "hand option"
  frame_now :: real

subsection \<open>Finger-state extractor\<close>

text \<open>\<^verbatim>\<open>lm[i]\<close> for a non-negative index: out of range raises \<^verbatim>\<open>IndexError\<close>.\<close>

definition lm_at :: "point list \<Rightarrow> nat \<Rightarrow> error + point" where
  "lm_at lm i = (if i < length lm then Inr (lm ! i) else Inl IndexError)"

definition fingers_up :: "point list \<Rightarrow> string \<Rightarrow> error + int list" where
  "fingers_up lm handedness_label =
     and_then
       (if handedness_label = ''Right''
        then and_then (lm_at lm (TIP_IDS ! 0)) (\<lambda>tip.
             and_then (lm_at lm (TIP_IDS ! 0 - 1)) (\<lambda>joint.
             Inr [px tip < px joint]))
        else and_then (lm_at lm (TIP_IDS ! 0)) (\<lambda>tip.
             and_then (lm_at lm (TIP_IDS ! 0 - 1)) (\<lambda>joint.
             Inr [px tip > px joint])))
       (\<lambda>thumb.
     and_then
       (sequence (map (\<lambda>id. and_then (lm_at lm id) (\<lambda>tip.
                             and_then (lm_at lm (id - 2)) (\<lambda>pip.
                             Inr (py tip < py pip))))
                      (drop 1 TIP_IDS)))
       (\<lambda>others.
     Inr (map (\<lambda>f. if f then 1 else 0) (thumb @ others))))"

subsection \<open>Gesture classifier\<close>

text \<open>
  The tuple assignment \<^verbatim>\<open>thumb, index, middle, ring, pinky = fingers\<close> raises
  \<^verbatim>\<open>ValueError\<close> unless there are exactly five entries.
\<close>

definition detect_gesture :: "int list \<Rightarrow> error + string" where
  "detect_gesture fingers =
     (if length fingers \<noteq> 5 then Inl ValueError
      else if fingers = [1, 1, 1, 1, 1] then Inr ''OPEN_PALM''
      else if fingers = [0, 0, 0, 0, 0] then Inr ''FIST''
      else if fingers = [1, 0, 0, 0, 0] then Inr ''THUMB_UP''
      else if fingers = [0, 1, 0, 0, 0] then Inr ''POINT''
      else Inr ''UNKNOWN'')"

subsection \<open>Action mapping\<close>

text \<open>
  The calls made to the keyboard: \<^verbatim>\<open>press_media_key_if_available\<close> with the name of a
  media key, and \<^verbatim>\<open>press_key_fallback\<close> with the keys of the fallback chord. Whether the
  media key could be pressed is the environment's answer \<open>media_ok\<close>; the result of the
  fallback is ignored by the source.
\<close>

datatype key_call = Media_Key string | Fallback "string list"

definition perform_action_for_gesture ::
  "(string \<Rightarrow> bool) \<Rightarrow> string \<Rightarrow> key_call list \<times> string option" where
  "perform_action_for_gesture media_ok gesture_name =
     (if gesture_name = ''OPEN_PALM'' then
        (let ok = media_ok ''media_play_pause'' in
         (Media_Key ''media_play_pause'' # (if \<not> ok then [Fallback ['' '']] else []),
          Some ''Play/Pause''))
      else if gesture_name = ''FIST'' then
        (let ok = media_ok ''media_previous'' in
         (Media_Key ''media_previous'' # (if \<not> ok then [Fallback [''ctrl_l'', ''left'']] else []),
          Some ''Previous Track''))
      else if gesture_name = ''POINT'' then
        (let ok = media_ok ''media_next'' in
         (Media_Key ''media_next'' # (if \<not> ok then [Fallback [''ctrl_l'', ''right'']] else []),
          Some ''Next Track''))
      else if gesture_name = ''THUMB_UP'' then
        (let ok = media_ok ''media_volume_up'' in
         (Media_Key ''media_volume_up'' # (if \<not> ok then [Fallback [''+'']] else []),
          Some ''Volume Up''))
      else ([], None))"

text \<open>Python's truth value of \<^verbatim>\<open>action_desc\<close>: \<^verbatim>\<open>None\<close> and the empty string are false.\<close>

definition truthy :: "string option \<Rightarrow> bool" where
  "truthy d = (case d of None \<Rightarrow> False | Some s \<Rightarrow> s \<noteq> [])"

subsection \<open>The bounded deque and the counter\<close>

text \<open>
  \<^verbatim>\<open>deque.append\<close> on a deque with \<^verbatim>\<open>maxlen\<close>: the item is appended on the right and,
  if the deque is then longer than \<^verbatim>\<open>maxlen\<close>, the leftmost item is discarded.
\<close>

definition deque_append :: "nat \<Rightarrow> 'a list \<Rightarrow> 'a \<Rightarrow> 'a list" where
  "deque_append maxlen d v = (let d' = d @ [v] in if length d' > maxlen then tl d' else d')"

text \<open>
  \<^verbatim>\<open>Counter(iterable)\<close>: a dictionary from items to counts, kept in order of first
  occurrence; \<^verbatim>\<open>most_common(1)\<close> is empty for an empty counter and otherwise holds the
  first entry (in that order) whose count is maximal.
\<close>

fun counter_add :: "'a \<Rightarrow> ('a \<times> nat) list \<Rightarrow> ('a \<times> nat) list" where
  "counter_add v [] = [(v, 1)]"
| "counter_add v ((k, c) # kcs) =
     (if k = v then (k, c + 1) # kcs else (k, c) # counter_add v kcs)"

definition Counter :: "'a list \<Rightarrow> ('a \<times> nat) list" where
  "Counter xs = fold counter_add xs []"

fun max_by_count :: "('a \<times> nat) \<Rightarrow> ('a \<times> nat) list \<Rightarrow> ('a \<times> nat)" where
  "max_by_count best [] = best"
| "max_by_count best (kc # kcs) =
     max_by_count (if snd kc > snd best then kc else best) kcs"

definition most_common_1 :: "('a \<times> nat) list \<Rightarrow> ('a \<times> nat) list" where
  "most_common_1 items = (case items of [] \<Rightarrow> [] | kc # kcs \<Rightarrow> [max_by_count kc kcs])"

subsection \<open>The frame loop of \<^verbatim>\<open>main\<close>\<close>

record loop_state =
  gesture_history :: "string list"
  last_action_time :: real
  last_triggered :: "string option"

definition initial_state :: loop_state where
  "initial_state = \<lparr>gesture_history = [], last_action_time = 0, last_triggered = None\<rparr>"

text \<open>
  A dispatched action: the clock reading and gesture stored in the loop's state when it
  fired, the description the action mapping returned and the keyboard calls it made.
\<close>

record dispatch =
  fired_at :: real
  fired_gesture :: string
  fired_desc :: string
  fired_calls :: "key_call list"

text \<open>
  \<^verbatim>\<open>most_common, count = Counter(gesture_history).most_common(1)[0]\<close> and
  \<^verbatim>\<open>stable = (most_common != "UNKNOWN") and (count == gesture_history.maxlen)\<close>.
\<close>

definition smoothing :: "string list \<Rightarrow> error + (string \<times> bool)" where
  "smoothing history =
     (case most_common_1 (Counter history) of
        [] \<Rightarrow> Inl IndexError
      | (most_common, count) # _ \<Rightarrow>
          Inr (most_common, most_common \<noteq> ''UNKNOWN'' \<and> count = SMOOTHING_FRAMES))"

text \<open>
  The state update of one iteration, given the classification of the frame:
  \<open>Some gesture\<close> is the branch with a hand (append, smoothing, cooldown and
  change-of-gesture gate, action), \<open>None\<close> the branch without one.
\<close>

definition update ::
  "(string \<Rightarrow> bool) \<Rightarrow> loop_state \<Rightarrow> string option \<Rightarrow> real
     \<Rightarrow> error + (loop_state \<times> dispatch option)" where
  "update media_ok st observed now =
     (case observed of
        Some gesture \<Rightarrow>
          (let st1 = st\<lparr>gesture_history :=
                          deque_append SMOOTHING_FRAMES (gesture_history st) gesture\<rparr> in
           and_then (smoothing (gesture_history st1)) (\<lambda>(most_common, stable).
             if stable \<and> (now - last_action_time st1) > ACTION_COOLDOWN then
               if Some most_common \<noteq> last_triggered st1 then
                 (case perform_action_for_gesture media_ok most_common of
                    (calls, action_desc) \<Rightarrow>
                      if truthy action_desc then
                        Inr (st1\<lparr>last_action_time := now,
                                 last_triggered := Some most_common\<rparr>,
                             Some \<lparr>fired_at = now, fired_gesture = most_common,
                                   fired_desc = the action_desc, fired_calls = calls\<rparr>)
                      else Inr (st1, None))
               else Inr (st1, None)
             else Inr (st1, None)))
      | None \<Rightarrow>
          Inr (st\<lparr>gesture_history :=
                    deque_append SMOOTHING_FRAMES (gesture_history st) ''UNKNOWN''\<rparr>, None))"

text \<open>The classification of a frame: \<^verbatim>\<open>detect_gesture(fingers_up(...))\<close> if there is a hand.\<close>

definition frame_gesture :: "frame \<Rightarrow> error + string option" where
  "frame_gesture fr =
     (case frame_hand fr of
        Some h \<Rightarrow>
          and_then (fingers_up (landmark h) (handedness h)) (\<lambda>fingers.
          and_then (detect_gesture fingers) (\<lambda>gesture. Inr (Some gesture)))
      | None \<Rightarrow> Inr None)"

definition loop_body ::
  "(string \<Rightarrow> bool) \<Rightarrow> loop_state \<Rightarrow> frame \<Rightarrow> error + (loop_state \<times> dispatch option)" where
  "loop_body media_ok st fr =
     and_then (frame_gesture fr) (\<lambda>observed. update media_ok st observed (frame_now fr))"

text \<open>
  The loop over the frames read until the camera fails or ESC is pressed; the result is
  the final state and the actions dispatched, in order. An exception ends the program.
\<close>

fun main_loop ::
  "(string \<Rightarrow> bool) \<Rightarrow> loop_state \<Rightarrow> frame list \<Rightarrow> error + (loop_state \<times> dispatch list)" where
  "main_loop media_ok st [] = Inr (st, [])"
| "main_loop media_ok st (fr # frs) =
     and_then (loop_body media_ok st fr) (\<lambda>(st1, fired).
     and_then (main_loop media_ok st1 frs) (\<lambda>(st2, actions).
     Inr (st2, (case fired of None \<Rightarrow> [] | Some d \<Rightarrow> [d]) @ actions)))"

text \<open>The same loop over frames that are already classified: (observation, clock).\<close>

fun run ::
  "(string \<Rightarrow> bool) \<Rightarrow> loop_state \<Rightarrow> (string option \<times> real) list
     \<Rightarrow> error + (loop_state \<times> dispatch list)" where
  "run media_ok st [] = Inr (st, [])"
| "run media_ok st ((observed, now) # rest) =
     and_then (update media_ok st observed now) (\<lambda>(st1, fired).
     and_then (run media_ok st1 rest) (\<lambda>(st2, actions).
     Inr (st2, (case fired of None \<Rightarrow> [] | Some d \<Rightarrow> [d]) @ actions)))"

text \<open>
  The classifications and clock readings of a list of frames, in order; the first frame
  whose classification raises decides the exception.
\<close>

definition classified :: "frame list \<Rightarrow> error + (string option \<times> real) list" where
  "classified frames =
     sequence (map (\<lambda>fr. and_then (frame_gesture fr) (\<lambda>observed. Inr (observed, frame_now fr)))
                   frames)"

section \<open>Properties\<close>

subsection \<open>The counter and the smoothing test\<close>

lemma counter_add_le:
  "(k, c) \<in> set (counter_add v acc) \<Longrightarrow>
     (k, c) \<in> set acc \<or> (k = v \<and> (c = 1 \<or> (\<exists>c0. (k, c0) \<in> set acc \<and> c = c0 + 1)))"
  by (induction v acc rule: counter_add.induct) (auto split: if_splits)

lemma fold_counter_add_le:
  "(k, c) \<in> set (fold counter_add xs acc) \<Longrightarrow>
     c \<le> count_list xs k \<or> (\<exists>c0. (k, c0) \<in> set acc \<and> c \<le> c0 + count_list xs k)"
proof (induction xs arbitrary: acc)
  case Nil
  then show ?case by auto
next
  case (Cons x xs)
  from Cons.IH[OF Cons.prems[simplified]]
  show ?case
  proof
    assume "c \<le> count_list xs k" then show ?thesis by auto
  next
    assume "\<exists>c0. (k, c0) \<in> set (counter_add x acc) \<and> c \<le> c0 + count_list xs k"
    then obtain c0 where c0: "(k, c0) \<in> set (counter_add x acc)" "c \<le> c0 + count_list xs k" by blast
    from counter_add_le[OF c0(1)] c0(2) show ?thesis by auto
  qed
qed

lemma Counter_le: "(k, c) \<in> set (Counter xs) \<Longrightarrow> c \<le> count_list xs k"
  using fold_counter_add_le[of k c xs "[]"] by (auto simp: Counter_def)

lemma max_by_count_mem: "max_by_count best kcs \<in> set (best # kcs)"
  by (induction best kcs rule: max_by_count.induct) auto

lemma most_common_1_mem: "most_common_1 items = kc # r \<Longrightarrow> kc \<in> set items \<and> r = []"
  using max_by_count_mem[of "hd items" "tl items"] by (auto simp: most_common_1_def split: list.splits)

lemma fold_counter_add_replicate:
  "fold counter_add (replicate n g) [(g, c)] = [(g, c + n)]"
  by (induction n arbitrary: c) (simp_all del: fold_replicate)

lemma Counter_replicate: "Counter (replicate (Suc n) g) = [(g, Suc n)]"
  using fold_counter_add_replicate[of n g 1] by (simp add: Counter_def del: fold_replicate)

lemma count_list_full: "count_list xs g = length xs \<Longrightarrow> \<forall>e\<in>set xs. e = g"
proof (induction xs)
  case Nil then show ?case by simp
next
  case (Cons a xs)
  have "count_list xs g \<le> length xs" by (rule count_le_length)
  with Cons show ?case by (auto split: if_splits)
qed

lemma counter_add_neq_Nil: "counter_add v acc \<noteq> []"
  by (cases acc) (auto split: if_splits)

lemma fold_counter_add_neq_Nil: "acc \<noteq> [] \<Longrightarrow> fold counter_add xs acc \<noteq> []"
  by (induction xs arbitrary: acc) (auto simp: counter_add_neq_Nil)

lemma Counter_neq_Nil: "xs \<noteq> [] \<Longrightarrow> Counter xs \<noteq> []"
  by (cases xs) (auto simp: Counter_def fold_counter_add_neq_Nil counter_add_neq_Nil)

lemma smoothing_total: "h \<noteq> [] \<Longrightarrow> \<exists>mc st. smoothing h = Inr (mc, st)"
  using Counter_neq_Nil[of h]
  by (auto simp: smoothing_def most_common_1_def split: list.splits prod.splits)

subsection \<open>Stability is unanimity over a full window\<close>

lemma length_deque_append:
  "length d \<le> n \<Longrightarrow> length (deque_append n d v) \<le> n"
  by (auto simp: deque_append_def Let_def)

lemma deque_append_neq_Nil: "0 < n \<Longrightarrow> deque_append n d v \<noteq> []"
  by (cases d) (auto simp: deque_append_def Let_def)

lemma last_deque_append: "0 < n \<Longrightarrow> v \<in> set (deque_append n d v)"
  by (cases d) (auto simp: deque_append_def Let_def)

lemma smoothing_stable_iff:
  assumes "length w \<le> SMOOTHING_FRAMES"
  shows "smoothing w = Inr (g, True) \<longleftrightarrow> w = replicate SMOOTHING_FRAMES g \<and> g \<noteq> ''UNKNOWN''"
proof
  assume st: "smoothing w = Inr (g, True)"
  then obtain c r where mc: "most_common_1 (Counter w) = (g, c) # r"
    and g: "g \<noteq> ''UNKNOWN''" and c: "c = SMOOTHING_FRAMES"
    by (auto simp: smoothing_def split: list.splits prod.splits)
  from most_common_1_mem[OF mc] have "(g, c) \<in> set (Counter w)" by simp
  from Counter_le[OF this] have "c \<le> count_list w g" .
  moreover have "count_list w g \<le> length w" by (rule count_le_length)
  ultimately have len: "length w = SMOOTHING_FRAMES" and cnt: "count_list w g = length w"
    using assms c by auto
  from count_list_full[OF cnt] have "\<forall>e\<in>set w. e = g" .
  then have "w = replicate (length w) g"
    by (simp add: replicate_length_same)
  with len g show "w = replicate SMOOTHING_FRAMES g \<and> g \<noteq> ''UNKNOWN''" by simp
next
  assume "w = replicate SMOOTHING_FRAMES g \<and> g \<noteq> ''UNKNOWN''"
  then have w: "w = replicate (Suc 5) g" and g: "g \<noteq> ''UNKNOWN''"
    by (simp_all add: SMOOTHING_FRAMES_def)
  have "Counter w = [(g, Suc 5)]" unfolding w by (rule Counter_replicate)
  then show "smoothing w = Inr (g, True)"
    using g by (simp add: smoothing_def most_common_1_def SMOOTHING_FRAMES_def)
qed

text \<open>
  Claim C1. For every window within its capacity and every label pushed, the smoothing
  test succeeds and reports a stable gesture \<open>g\<close> exactly when the window then holds
  \<open>SMOOTHING_FRAMES\<close> entries, each entry is \<open>g\<close>, and \<open>g\<close> is not \<open>UNKNOWN\<close>; in every other
  case the flag is false. The test on the count of the most common entry is the same as
  strict unanimity over a full window.
\<close>

theorem debounce_unanimity:
  assumes "length d \<le> SMOOTHING_FRAMES"
  shows "\<exists>mc stable. smoothing (deque_append SMOOTHING_FRAMES d v) = Inr (mc, stable) \<and>
           (\<forall>g. (stable \<and> mc = g) \<longleftrightarrow>
                (length (deque_append SMOOTHING_FRAMES d v) = SMOOTHING_FRAMES \<and>
                 (\<forall>e\<in>set (deque_append SMOOTHING_FRAMES d v). e = g) \<and>
                 g \<noteq> ''UNKNOWN''))"
proof -
  let ?w = "deque_append SMOOTHING_FRAMES d v"
  have len: "length ?w \<le> SMOOTHING_FRAMES" using assms by (rule length_deque_append)
  have "?w \<noteq> []" by (rule deque_append_neq_Nil) (simp add: SMOOTHING_FRAMES_def)
  from smoothing_total[OF this] obtain mc stable where s: "smoothing ?w = Inr (mc, stable)"
    by blast
  have "(stable \<and> mc = g) \<longleftrightarrow>
          (length ?w = SMOOTHING_FRAMES \<and> (\<forall>e\<in>set ?w. e = g) \<and> g \<noteq> ''UNKNOWN'')" for g
  proof -
    have "(stable \<and> mc = g) \<longleftrightarrow> smoothing ?w = Inr (g, True)" using s by auto
    also have "\<dots> \<longleftrightarrow> ?w = replicate SMOOTHING_FRAMES g \<and> g \<noteq> ''UNKNOWN''"
      by (rule smoothing_stable_iff[OF len])
    also have "\<dots> \<longleftrightarrow> (length ?w = SMOOTHING_FRAMES \<and> (\<forall>e\<in>set ?w. e = g) \<and> g \<noteq> ''UNKNOWN'')"
      by (metis length_replicate replicate_length_same in_set_replicate)
    finally show ?thesis .
  qed
  with s show ?thesis by blast
qed

theorem debounce_unanimity_witness:
  "length [''FIST'', ''FIST'', ''FIST'', ''FIST'', ''FIST'', ''FIST''] \<le> SMOOTHING_FRAMES \<and>
   smoothing (deque_append SMOOTHING_FRAMES
                [''FIST'', ''FIST'', ''FIST'', ''FIST'', ''FIST'', ''FIST''] ''FIST'')
     = Inr (''FIST'', True)"
proof -
  let ?d = "[''FIST'', ''FIST'', ''FIST'', ''FIST'', ''FIST'', ''FIST'']"
  have h: "length ?d \<le> SMOOTHING_FRAMES"
    by (simp add: SMOOTHING_FRAMES_def)
  have w: "deque_append SMOOTHING_FRAMES ?d ''FIST'' = ?d"
    by (simp add: deque_append_def SMOOTHING_FRAMES_def)
  from debounce_unanimity [OF h, of "''FIST''"]
  obtain mc stable where s: "smoothing ?d = Inr (mc, stable)"
    and iff: "\<And>g. (stable \<and> mc = g) \<longleftrightarrow>
                (length ?d = SMOOTHING_FRAMES \<and> (\<forall>e\<in>set ?d. e = g) \<and> g \<noteq> ''UNKNOWN'')"
    unfolding w by blast
  have "stable \<and> mc = ''FIST''"
    unfolding iff by (simp add: SMOOTHING_FRAMES_def)
  with s h show ?thesis unfolding w by simp
qed

subsection \<open>One iteration of the loop\<close>

lemma truthy_perform_action:
  "truthy (snd (perform_action_for_gesture media_ok g)) \<longleftrightarrow>
     g \<in> {''OPEN_PALM'', ''FIST'', ''POINT'', ''THUMB_UP''}"
  by (simp add: perform_action_for_gesture_def truthy_def Let_def)

lemma update_history:
  "update media_ok st observed now = Inr (st', out) \<Longrightarrow>
     gesture_history st' =
       deque_append SMOOTHING_FRAMES (gesture_history st)
         (case observed of None \<Rightarrow> ''UNKNOWN'' | Some g \<Rightarrow> g)"
  by (auto simp: update_def and_then_def Let_def
           split: option.splits sum.splits prod.splits if_splits)

lemma update_total: "\<exists>st' out. update media_ok st observed now = Inr (st', out)"
proof (cases observed)
  case None
  then show ?thesis by (simp add: update_def)
next
  case (Some g)
  have "deque_append SMOOTHING_FRAMES (gesture_history st) g \<noteq> []"
    by (rule deque_append_neq_Nil) (simp add: SMOOTHING_FRAMES_def)
  from smoothing_total[OF this] obtain mc stable
    where "smoothing (deque_append SMOOTHING_FRAMES (gesture_history st) g) = Inr (mc, stable)"
    by blast
  with Some show ?thesis
    by (simp add: update_def and_then_def Let_def split: prod.splits)
qed

lemma update_effect:
  assumes "update media_ok st observed now = Inr (st', out)"
  shows "(out = None \<and> last_action_time st' = last_action_time st \<and>
          last_triggered st' = last_triggered st) \<or>
         (\<exists>d. out = Some d \<and> fired_at d = now \<and>
              now - last_action_time st > ACTION_COOLDOWN \<and>
              Some (fired_gesture d) \<noteq> last_triggered st \<and>
              fired_gesture d \<in> {''OPEN_PALM'', ''FIST'', ''POINT'', ''THUMB_UP''} \<and>
              last_action_time st' = now \<and> last_triggered st' = Some (fired_gesture d) \<and>
              observed \<noteq> None \<and>
              smoothing (gesture_history st') = Inr (fired_gesture d, True))"
proof (cases observed)
  case None
  with assms show ?thesis by (auto simp: update_def)
next
  case (Some g)
  let ?w = "deque_append SMOOTHING_FRAMES (gesture_history st) g"
  have "?w \<noteq> []"
    by (rule deque_append_neq_Nil) (simp add: SMOOTHING_FRAMES_def)
  from smoothing_total[OF this] obtain mc stable
    where s: "smoothing ?w = Inr (mc, stable)"
    by blast
  obtain calls desc where p: "perform_action_for_gesture media_ok mc = (calls, desc)"
    by (cases "perform_action_for_gesture media_ok mc")
  have t: "truthy desc \<longleftrightarrow> mc \<in> {''OPEN_PALM'', ''FIST'', ''POINT'', ''THUMB_UP''}"
    using truthy_perform_action[of media_ok mc] p by simp
  show ?thesis
    using assms Some s p t
    by (auto simp: update_def and_then_def Let_def split: if_splits)
qed

lemma update_hand:
  assumes "length (gesture_history st) \<le> SMOOTHING_FRAMES"
  shows "update media_ok st (Some g) now =
     Inr (let w = deque_append SMOOTHING_FRAMES (gesture_history st) g in
          if w = replicate SMOOTHING_FRAMES g \<and>
             g \<in> {''OPEN_PALM'', ''FIST'', ''POINT'', ''THUMB_UP''} \<and>
             now - last_action_time st > ACTION_COOLDOWN \<and> Some g \<noteq> last_triggered st
          then (st\<lparr>gesture_history := w, last_action_time := now, last_triggered := Some g\<rparr>,
                Some \<lparr>fired_at = now, fired_gesture = g,
                      fired_desc = the (snd (perform_action_for_gesture media_ok g)),
                      fired_calls = fst (perform_action_for_gesture media_ok g)\<rparr>)
          else (st\<lparr>gesture_history := w\<rparr>, None))"
proof -
  let ?w = "deque_append SMOOTHING_FRAMES (gesture_history st) g"
  have len: "length ?w \<le> SMOOTHING_FRAMES" using assms by (rule length_deque_append)
  have ne: "?w \<noteq> []"
    by (rule deque_append_neq_Nil) (simp add: SMOOTHING_FRAMES_def)
  have mem: "g \<in> set ?w"
    by (rule last_deque_append) (simp add: SMOOTHING_FRAMES_def)
  from smoothing_total[OF ne] obtain mc stable
    where s: "smoothing ?w = Inr (mc, stable)"
    by blast
  have st: "stable \<longleftrightarrow> ?w = replicate SMOOTHING_FRAMES mc \<and> mc \<noteq> ''UNKNOWN''"
    using smoothing_stable_iff[OF len, of mc] s by auto
  have mc: "mc = g" if stable
    using that st mem by (metis in_set_replicate)
  have st': "stable \<longleftrightarrow> ?w = replicate SMOOTHING_FRAMES g \<and> g \<noteq> ''UNKNOWN''"
  proof
    assume stable with st mc show "?w = replicate SMOOTHING_FRAMES g \<and> g \<noteq> ''UNKNOWN''" by simp
  next
    assume a: "?w = replicate SMOOTHING_FRAMES g \<and> g \<noteq> ''UNKNOWN''"
    then have "smoothing ?w = Inr (g, True)" using smoothing_stable_iff[OF len, of g] by simp
    with s show stable by simp
  qed
  obtain calls desc where p: "perform_action_for_gesture media_ok g = (calls, desc)"
    by (cases "perform_action_for_gesture media_ok g")
  have t: "truthy desc \<longleftrightarrow> g \<in> {''OPEN_PALM'', ''FIST'', ''POINT'', ''THUMB_UP''}"
    using truthy_perform_action[of media_ok g] p by simp
  show ?thesis
  proof (cases stable)
    case True
    with mc have "mc = g" by simp
    with True s p t st' show ?thesis
      by (auto simp: update_def and_then_def Let_def)
  next
    case False
    with s st' show ?thesis
      by (auto simp: update_def and_then_def Let_def)
  qed
qed

subsection \<open>Runs of the loop\<close>

lemma cooldown_pos: "0 < ACTION_COOLDOWN"
  by (simp add: ACTION_COOLDOWN_def)

lemma run_total: "\<exists>st' actions. run media_ok st inputs = Inr (st', actions)"
proof (induction inputs arbitrary: st)
  case Nil
  then show ?case by simp
next
  case (Cons a inputs)
  obtain observed now where a: "a = (observed, now)" by (cases a)
  from update_total obtain st1 out
    where u: "update media_ok st observed now = Inr (st1, out)" by blast
  from Cons.IH obtain st2 actions where r: "run media_ok st1 inputs = Inr (st2, actions)" by blast
  show ?case using a u r by (simp add: and_then_def)
qed

lemma run_Cons_Inr:
  assumes "run media_ok st ((observed, now) # rest) = Inr (st', actions)"
  obtains st1 out actions1 where "update media_ok st observed now = Inr (st1, out)"
    and "run media_ok st1 rest = Inr (st', actions1)"
    and "actions = (case out of None \<Rightarrow> [] | Some d \<Rightarrow> [d]) @ actions1"
  using assms by (auto simp: and_then_def split: sum.splits prod.splits)

lemma run_separated:
  assumes "run media_ok st inputs = Inr (st', actions)"
  shows "sorted_wrt (\<lambda>d1 d2. fired_at d2 - fired_at d1 > ACTION_COOLDOWN) actions \<and>
         (\<forall>d\<in>set actions. fired_at d - last_action_time st > ACTION_COOLDOWN) \<and>
         fired_at ` set actions \<subseteq> snd ` set inputs"
  using assms
proof (induction inputs arbitrary: st actions)
  case Nil
  then show ?case by simp
next
  case (Cons a inputs)
  obtain observed now where a: "a = (observed, now)" by (cases a)
  from Cons.prems[unfolded a] obtain st1 out actions1
    where u: "update media_ok st observed now = Inr (st1, out)"
      and r: "run media_ok st1 inputs = Inr (st', actions1)"
      and l: "actions = (case out of None \<Rightarrow> [] | Some d \<Rightarrow> [d]) @ actions1"
    by (rule run_Cons_Inr)
  note IH = Cons.IH[OF r]
  from update_effect[OF u] show ?case
  proof (elim disjE exE conjE)
    assume "out = None" "last_action_time st1 = last_action_time st"
    with IH l a show ?thesis by auto
  next
    fix d
    assume d: "out = Some d" "fired_at d = now"
      "ACTION_COOLDOWN < now - last_action_time st" "last_action_time st1 = now"
    have "\<forall>e\<in>set actions1. fired_at e - now > ACTION_COOLDOWN" using IH d by simp
    moreover from this have "\<forall>e\<in>set actions1. fired_at e - last_action_time st > ACTION_COOLDOWN"
      using d(3) cooldown_pos by fastforce
    ultimately show ?thesis using IH l a d by auto
  qed
qed

lemma run_alternates:
  assumes "run media_ok st inputs = Inr (st', actions)"
  shows "distinct_adj (last_triggered st # map (\<lambda>d. Some (fired_gesture d)) actions) \<and>
         last_triggered st' = last (last_triggered st # map (\<lambda>d. Some (fired_gesture d)) actions)"
  using assms
proof (induction inputs arbitrary: st actions)
  case Nil
  then show ?case by simp
next
  case (Cons a inputs)
  obtain observed now where a: "a = (observed, now)" by (cases a)
  from Cons.prems[unfolded a] obtain st1 out actions1
    where u: "update media_ok st observed now = Inr (st1, out)"
      and r: "run media_ok st1 inputs = Inr (st', actions1)"
      and l: "actions = (case out of None \<Rightarrow> [] | Some d \<Rightarrow> [d]) @ actions1"
    by (rule run_Cons_Inr)
  note IH = Cons.IH[OF r]
  from update_effect[OF u] show ?case
  proof (elim disjE exE conjE)
    assume "out = None" "last_triggered st1 = last_triggered st"
    with IH l show ?thesis by auto
  next
    fix d
    assume d: "out = Some d" "Some (fired_gesture d) \<noteq> last_triggered st"
      "last_triggered st1 = Some (fired_gesture d)"
    with IH l show ?thesis by (auto simp: distinct_adj_Cons)
  qed
qed

text \<open>The loop of the source is the loop over the classified frames.\<close>

lemma main_loop_run:
  "main_loop media_ok st frames = and_then (classified frames) (run media_ok st)"
proof (induction frames arbitrary: st)
  case Nil
  then show ?case by (simp add: classified_def and_then_def)
next
  case (Cons fr frs)
  show ?case
  proof (cases "frame_gesture fr")
    case (Inl e)
    then show ?thesis by (simp add: classified_def loop_body_def and_then_def)
  next
    case (Inr observed)
    from update_total obtain st1 out
      where u: "update media_ok st observed (frame_now fr) = Inr (st1, out)" by blast
    show ?thesis
      using Inr u Cons.IH[of st1]
      by (cases "classified frs")
         (simp_all add: classified_def loop_body_def and_then_def)
  qed
qed

text \<open>
  The loop raises nothing on frames whose hands carry the 21 landmarks of the pose model:
  every iteration returns.
\<close>

lemma fingers_up_total:
  assumes "20 < length lm"
  shows "\<exists>fingers. fingers_up lm label = Inr fingers \<and> length fingers = 5"
  using assms by (simp add: fingers_up_def and_then_def TIP_IDS_def lm_at_def)

lemma frame_gesture_total:
  assumes "\<forall>h. frame_hand fr = Some h \<longrightarrow> 20 < length (landmark h)"
  shows "\<exists>observed. frame_gesture fr = Inr observed"
proof (cases "frame_hand fr")
  case None
  then show ?thesis by (simp add: frame_gesture_def)
next
  case (Some h)
  with assms have "20 < length (landmark h)" by simp
  from fingers_up_total[OF this, of "handedness h"] obtain fingers
    where f: "fingers_up (landmark h) (handedness h) = Inr fingers" and l: "length fingers = 5"
    by (elim exE conjE)
  from l have "\<exists>g. detect_gesture fingers = Inr g" by (simp add: detect_gesture_def)
  with Some f show ?thesis by (auto simp: frame_gesture_def and_then_def)
qed

lemma main_loop_total:
  assumes "\<forall>fr\<in>set frames. \<forall>h. frame_hand fr = Some h \<longrightarrow> 20 < length (landmark h)"
  shows "\<exists>st' actions. main_loop media_ok st frames = Inr (st', actions)"
  using assms
proof (induction frames arbitrary: st)
  case Nil
  then show ?case by simp
next
  case (Cons fr frs)
  from Cons.prems have "\<forall>h. frame_hand fr = Some h \<longrightarrow> 20 < length (landmark h)" by simp
  from frame_gesture_total[OF this] obtain observed
    where g: "frame_gesture fr = Inr observed" by (elim exE)
  from update_total obtain st1 out
    where u: "update media_ok st observed (frame_now fr) = Inr (st1, out)" by blast
  from Cons.prems have "\<forall>fr\<in>set frs. \<forall>h. frame_hand fr = Some h \<longrightarrow> 20 < length (landmark h)"
    by simp
  from Cons.IH[OF this] obtain st2 actions
    where m: "main_loop media_ok st1 frs = Inr (st2, actions)" by blast
  show ?case using g u m by (simp add: loop_body_def and_then_def)
qed

subsection \<open>Cooldown between dispatched actions\<close>

lemma classified_clock:
  "classified frames = Inr inputs \<Longrightarrow> map snd inputs = map frame_now frames"
proof (induction frames arbitrary: inputs)
  case Nil
  then show ?case by (simp add: classified_def)
next
  case (Cons fr frs)
  then show ?case
    by (auto simp: classified_def and_then_def split: sum.splits)
qed

lemma main_loop_Inr:
  assumes "main_loop media_ok st frames = Inr (st', actions)"
  obtains inputs where "classified frames = Inr inputs"
    and "run media_ok st inputs = Inr (st', actions)"
    and "map snd inputs = map frame_now frames"
  using assms classified_clock[of frames]
  by (auto simp: main_loop_run and_then_def split: sum.splits)

text \<open>
  Claim C2. In every run of the loop, from any state and on any sequence of frames and
  clock readings, any two dispatched actions are more than \<open>ACTION_COOLDOWN\<close> apart: the
  clock reading of the later one exceeds that of the earlier one by more than the
  cooldown. Each action carries the clock reading of the frame it fired in. The statement
  is given for the loop over classified frames (which always returns) and for the loop
  over raw frames (whenever it returns). No assumption on the clock is needed.
\<close>

theorem cooldown_between_dispatches:
  "(\<exists>st' actions. run media_ok st inputs = Inr (st', actions) \<and>
      sorted_wrt (\<lambda>d1 d2. fired_at d2 - fired_at d1 > ACTION_COOLDOWN) actions \<and>
      fired_at ` set actions \<subseteq> snd ` set inputs) \<and>
   (\<forall>st' actions. main_loop media_ok st frames = Inr (st', actions) \<longrightarrow>
      sorted_wrt (\<lambda>d1 d2. fired_at d2 - fired_at d1 > ACTION_COOLDOWN) actions \<and>
      fired_at ` set actions \<subseteq> frame_now ` set frames)"
proof (intro conjI allI impI)
  from run_total obtain st' actions
    where r: "run media_ok st inputs = Inr (st', actions)" by blast
  from run_separated[OF r] r
  show "\<exists>st' actions. run media_ok st inputs = Inr (st', actions) \<and>
      sorted_wrt (\<lambda>d1 d2. fired_at d2 - fired_at d1 > ACTION_COOLDOWN) actions \<and>
      fired_at ` set actions \<subseteq> snd ` set inputs"
    by blast
next
  fix st' actions
  assume m: "main_loop media_ok st frames = Inr (st', actions)"
  then obtain ins where r: "run media_ok st ins = Inr (st', actions)"
    and c: "map snd ins = map frame_now frames"
    by (rule main_loop_Inr)
  from c have "snd ` set ins = frame_now ` set frames"
    by (metis set_map)
  with run_separated[OF r]
  show "sorted_wrt (\<lambda>d1 d2. fired_at d2 - fired_at d1 > ACTION_COOLDOWN) actions"
    and "fired_at ` set actions \<subseteq> frame_now ` set frames"
    by simp_all
qed

lemma run_example:
  "run (\<lambda>_. True) initial_state
     (map (Pair (Some ''OPEN_PALM'')) [1, 2, 3, 4, 5, 6] @
      map (Pair (Some ''FIST'')) [7, 8, 9, 10, 11, 12])
   = Inr (\<lparr>gesture_history = [''FIST'', ''FIST'', ''FIST'', ''FIST'', ''FIST'', ''FIST''],
           last_action_time = 12, last_triggered = Some ''FIST''\<rparr>,
          [\<lparr>fired_at = 6, fired_gesture = ''OPEN_PALM'', fired_desc = ''Play/Pause'',
            fired_calls = [Media_Key ''media_play_pause'']\<rparr>,
           \<lparr>fired_at = 12, fired_gesture = ''FIST'', fired_desc = ''Previous Track'',
            fired_calls = [Media_Key ''media_previous'']\<rparr>])"
  by code_simp

theorem cooldown_between_dispatches_witness:
  "sorted_wrt (\<lambda>d1 d2. fired_at d2 - fired_at d1 > ACTION_COOLDOWN)
     (snd (projr (run (\<lambda>_. True) initial_state
       (map (Pair (Some ''OPEN_PALM'')) [1, 2, 3, 4, 5, 6] @
        map (Pair (Some ''FIST'')) [7, 8, 9, 10, 11, 12])))) \<and>
   map fired_at (snd (projr (run (\<lambda>_. True) initial_state
       (map (Pair (Some ''OPEN_PALM'')) [1, 2, 3, 4, 5, 6] @
        map (Pair (Some ''FIST'')) [7, 8, 9, 10, 11, 12])))) = [6, 12]"
proof -
  let ?inputs = "map (Pair (Some ''OPEN_PALM'')) [1, 2, 3, 4, 5, 6] @
        map (Pair (Some ''FIST'')) [7, 8, 9, 10, 11, 12::real]"
  have "\<exists>st' actions. run (\<lambda>_. True) initial_state ?inputs = Inr (st', actions) \<and>
      sorted_wrt (\<lambda>d1 d2. fired_at d2 - fired_at d1 > ACTION_COOLDOWN) actions \<and>
      fired_at ` set actions \<subseteq> snd ` set ?inputs"
    by (rule cooldown_between_dispatches[THEN conjunct1])
  then obtain st' actions where r: "run (\<lambda>_. True) initial_state ?inputs = Inr (st', actions)"
    and s: "sorted_wrt (\<lambda>d1 d2. fired_at d2 - fired_at d1 > ACTION_COOLDOWN) actions"
    by (elim exE conjE)
  from r have a: "snd (projr (run (\<lambda>_. True) initial_state ?inputs)) = actions"
    by simp
  have "map fired_at actions = [6, 12]"
    using r unfolding run_example by auto
  with s show ?thesis unfolding a by simp
qed

subsection \<open>No second dispatch of the same gesture in a row\<close>

lemma replicate_6: "replicate 6 g = [g, g, g, g, g, g]"
  by (simp add: eval_nat_numeral)

lemma length_6_obtain:
  assumes "length xs = SMOOTHING_FRAMES"
  obtains x1 x2 x3 x4 x5 x6 where "xs = [x1, x2, x3, x4, x5, x6]"
  using assms by (auto simp: SMOOTHING_FRAMES_def eval_nat_numeral length_Suc_conv)

lemma held_gesture_silent:
  assumes "length (gesture_history st) \<le> SMOOTHING_FRAMES" "last_triggered st = Some G"
  shows "\<exists>st'. run media_ok st (map (Pair (Some G)) ts) = Inr (st', [])"
  using assms
proof (induction ts arbitrary: st)
  case Nil
  then show ?case by simp
next
  case (Cons t ts)
  let ?st1 = "st\<lparr>gesture_history := deque_append SMOOTHING_FRAMES (gesture_history st) G\<rparr>"
  have u: "update media_ok st (Some G) t = Inr (?st1, None)"
    using Cons.prems by (simp add: update_hand Let_def)
  have "length (gesture_history ?st1) \<le> SMOOTHING_FRAMES" "last_triggered ?st1 = Some G"
    using Cons.prems by (simp_all add: length_deque_append)
  from Cons.IH[OF this] obtain st' where "run media_ok ?st1 (map (Pair (Some G)) ts) = Inr (st', [])"
    by (elim exE)
  with u show ?case by (simp add: and_then_def)
qed

lemma scenario_run:
  assumes "a6 - last_action_time initial_state > ACTION_COOLDOWN"
    "c6 - a6 > ACTION_COOLDOWN" "d6 - c6 > ACTION_COOLDOWN"
  shows "map (\<lambda>d. (fired_at d, fired_gesture d, fired_desc d))
        (snd (projr (run media_ok initial_state
           (map (Pair (Some ''OPEN_PALM'')) [a1, a2, a3, a4, a5, a6]))))
        = [(a6, ''OPEN_PALM'', ''Play/Pause'')]"
    and "map (\<lambda>d. (fired_at d, fired_gesture d, fired_desc d))
        (snd (projr (run media_ok initial_state
           (map (Pair (Some ''OPEN_PALM'')) [a1, a2, a3, a4, a5, a6] @
            map (Pair (Some ''OPEN_PALM'')) [b1, b2, b3, b4, b5, b6]))))
        = [(a6, ''OPEN_PALM'', ''Play/Pause'')]"
    and "map (\<lambda>d. (fired_at d, fired_gesture d, fired_desc d))
        (snd (projr (run media_ok initial_state
           (map (Pair (Some ''OPEN_PALM'')) [a1, a2, a3, a4, a5, a6] @
            map (Pair (Some ''OPEN_PALM'')) [b1, b2, b3, b4, b5, b6] @
            map (Pair (Some ''FIST'')) [c1, c2, c3, c4, c5, c6]))))
        = [(a6, ''OPEN_PALM'', ''Play/Pause''), (c6, ''FIST'', ''Previous Track'')]"
    and "map (\<lambda>d. (fired_at d, fired_gesture d, fired_desc d))
        (snd (projr (run media_ok initial_state
           (map (Pair (Some ''OPEN_PALM'')) [a1, a2, a3, a4, a5, a6] @
            map (Pair (Some ''OPEN_PALM'')) [b1, b2, b3, b4, b5, b6] @
            map (Pair (Some ''FIST'')) [c1, c2, c3, c4, c5, c6] @
            map (Pair (Some ''OPEN_PALM'')) [d1, d2, d3, d4, d5, d6]))))
        = [(a6, ''OPEN_PALM'', ''Play/Pause''), (c6, ''FIST'', ''Previous Track''),
           (d6, ''OPEN_PALM'', ''Play/Pause'')]"
  using assms
  by (simp_all add: update_hand and_then_def deque_append_def replicate_6 SMOOTHING_FRAMES_def
        initial_state_def perform_action_for_gesture_def Let_def)

text \<open>
  Claim C3. In every run, from any state, the gestures of consecutive dispatches differ,
  and the first dispatched gesture differs from the gesture last triggered before the run:
  once \<open>G\<close> has fired, \<open>G\<close> fires again only after a different gesture has fired in between,
  whatever happens to the window and the clock meanwhile. In particular, from a state
  whose last triggered gesture is \<open>G\<close>, any number of further frames classified \<open>G\<close>
  dispatch nothing. The scenario of the claim, from the initial state with \<open>N\<close> =
  \<open>SMOOTHING_FRAMES\<close> and the cooldown elapsed at each fire: \<open>N\<close> frames of \<open>OPEN_PALM\<close> fire
  Play/Pause at the last of them; \<open>N\<close> more fire nothing; \<open>N\<close> frames of \<open>FIST\<close> then fire
  Previous Track; \<open>N\<close> more frames of \<open>OPEN_PALM\<close> fire Play/Pause again.
\<close>

theorem refire_suppression:
  "(\<exists>st' actions. run media_ok st inputs = Inr (st', actions) \<and>
      distinct_adj (last_triggered st # map (\<lambda>d. Some (fired_gesture d)) actions)) \<and>
   (\<forall>st' actions. main_loop media_ok st frames = Inr (st', actions) \<longrightarrow>
      distinct_adj (last_triggered st # map (\<lambda>d. Some (fired_gesture d)) actions)) \<and>
   (length (gesture_history st) \<le> SMOOTHING_FRAMES \<and> last_triggered st = Some G \<longrightarrow>
      (\<exists>st'. run media_ok st (map (Pair (Some G)) ts) = Inr (st', []))) \<and>
   (length a = SMOOTHING_FRAMES \<and> length b = SMOOTHING_FRAMES \<and>
    length c = SMOOTHING_FRAMES \<and> length d = SMOOTHING_FRAMES \<and>
    last a - last_action_time initial_state > ACTION_COOLDOWN \<and>
    last c - last a > ACTION_COOLDOWN \<and> last d - last c > ACTION_COOLDOWN \<longrightarrow>
      map (\<lambda>d. (fired_at d, fired_gesture d, fired_desc d))
        (snd (projr (run media_ok initial_state (map (Pair (Some ''OPEN_PALM'')) a))))
        = [(last a, ''OPEN_PALM'', ''Play/Pause'')] \<and>
      map (\<lambda>d. (fired_at d, fired_gesture d, fired_desc d))
        (snd (projr (run media_ok initial_state
           (map (Pair (Some ''OPEN_PALM'')) a @ map (Pair (Some ''OPEN_PALM'')) b))))
        = [(last a, ''OPEN_PALM'', ''Play/Pause'')] \<and>
      map (\<lambda>d. (fired_at d, fired_gesture d, fired_desc d))
        (snd (projr (run media_ok initial_state
           (map (Pair (Some ''OPEN_PALM'')) a @ map (Pair (Some ''OPEN_PALM'')) b @
            map (Pair (Some ''FIST'')) c))))
        = [(last a, ''OPEN_PALM'', ''Play/Pause''), (last c, ''FIST'', ''Previous Track'')] \<and>
      map (\<lambda>d. (fired_at d, fired_gesture d, fired_desc d))
        (snd (projr (run media_ok initial_state
           (map (Pair (Some ''OPEN_PALM'')) a @ map (Pair (Some ''OPEN_PALM'')) b @
            map (Pair (Some ''FIST'')) c @ map (Pair (Some ''OPEN_PALM'')) d))))
        = [(last a, ''OPEN_PALM'', ''Play/Pause''), (last c, ''FIST'', ''Previous Track''),
           (last d, ''OPEN_PALM'', ''Play/Pause'')])"
  (is "?general \<and> ?loop \<and> ?held \<and> ?scenario")
proof -
  have ?general
  proof -
    from run_total obtain st' actions
      where r: "run media_ok st inputs = Inr (st', actions)" by blast
    from run_alternates[OF r] r show ?thesis by blast
  qed
  moreover have ?loop
  proof (intro allI impI)
    fix st' actions
    assume "main_loop media_ok st frames = Inr (st', actions)"
    then obtain ins where "run media_ok st ins = Inr (st', actions)"
      by (rule main_loop_Inr)
    from run_alternates[OF this]
    show "distinct_adj (last_triggered st # map (\<lambda>d. Some (fired_gesture d)) actions)"
      by simp
  qed
  moreover have ?held
    using held_gesture_silent by blast
  moreover have ?scenario
  proof (intro impI, elim conjE)
    assume len: "length a = SMOOTHING_FRAMES" "length b = SMOOTHING_FRAMES"
      "length c = SMOOTHING_FRAMES" "length d = SMOOTHING_FRAMES"
      and cd: "last a - last_action_time initial_state > ACTION_COOLDOWN"
        "last c - last a > ACTION_COOLDOWN" "last d - last c > ACTION_COOLDOWN"
    from len(1) obtain a1 a2 a3 a4 a5 a6 where a: "a = [a1, a2, a3, a4, a5, a6]"
      by (rule length_6_obtain)
    from len(2) obtain b1 b2 b3 b4 b5 b6 where b: "b = [b1, b2, b3, b4, b5, b6]"
      by (rule length_6_obtain)
    from len(3) obtain c1 c2 c3 c4 c5 c6 where c: "c = [c1, c2, c3, c4, c5, c6]"
      by (rule length_6_obtain)
    from len(4) obtain d1 d2 d3 d4 d5 d6 where d: "d = [d1, d2, d3, d4, d5, d6]"
      by (rule length_6_obtain)
    have l: "last a = a6" "last c = c6" "last d = d6"
      by (simp_all add: a c d)
    from cd have cd': "a6 - last_action_time initial_state > ACTION_COOLDOWN"
      "c6 - a6 > ACTION_COOLDOWN" "d6 - c6 > ACTION_COOLDOWN"
      by (simp_all only: l)
    show "map (\<lambda>d. (fired_at d, fired_gesture d, fired_desc d))
        (snd (projr (run media_ok initial_state (map (Pair (Some ''OPEN_PALM'')) a))))
        = [(last a, ''OPEN_PALM'', ''Play/Pause'')] \<and>
      map (\<lambda>d. (fired_at d, fired_gesture d, fired_desc d))
        (snd (projr (run media_ok initial_state
           (map (Pair (Some ''OPEN_PALM'')) a @ map (Pair (Some ''OPEN_PALM'')) b))))
        = [(last a, ''OPEN_PALM'', ''Play/Pause'')] \<and>
      map (\<lambda>d. (fired_at d, fired_gesture d, fired_desc d))
        (snd (projr (run media_ok initial_state
           (map (Pair (Some ''OPEN_PALM'')) a @ map (Pair (Some ''OPEN_PALM'')) b @
            map (Pair (Some ''FIST'')) c))))
        = [(last a, ''OPEN_PALM'', ''Play/Pause''), (last c, ''FIST'', ''Previous Track'')] \<and>
      map (\<lambda>d. (fired_at d, fired_gesture d, fired_desc d))
        (snd (projr (run media_ok initial_state
           (map (Pair (Some ''OPEN_PALM'')) a @ map (Pair (Some ''OPEN_PALM'')) b @
            map (Pair (Some ''FIST'')) c @ map (Pair (Some ''OPEN_PALM'')) d))))
        = [(last a, ''OPEN_PALM'', ''Play/Pause''), (last c, ''FIST'', ''Previous Track''),
           (last d, ''OPEN_PALM'', ''Play/Pause'')]"
      unfolding l unfolding a b c d
      by (intro conjI) (rule scenario_run[OF cd'])+
  qed
  ultimately show ?thesis by (intro conjI)
qed

theorem refire_suppression_witness:
  "(\<exists>st'. run (\<lambda>_. True)
            \<lparr>gesture_history = [''OPEN_PALM'', ''OPEN_PALM'', ''OPEN_PALM'',
                                 ''OPEN_PALM'', ''OPEN_PALM'', ''OPEN_PALM''],
             last_action_time = 6, last_triggered = Some ''OPEN_PALM''\<rparr>
            (map (Pair (Some ''OPEN_PALM'')) [7, 8, 9, 10, 11, 12, 13]) = Inr (st', [])) \<and>
   map (\<lambda>d. (fired_at d, fired_gesture d, fired_desc d))
     (snd (projr (run (\<lambda>_. True) initial_state
        (map (Pair (Some ''OPEN_PALM'')) [1, 2, 3, 4, 5, 6] @
         map (Pair (Some ''OPEN_PALM'')) [7, 8, 9, 10, 11, 12] @
         map (Pair (Some ''FIST'')) [13, 14, 15, 16, 17, 18] @
         map (Pair (Some ''OPEN_PALM'')) [19, 20, 21, 22, 23, 24]))))
     = [(6, ''OPEN_PALM'', ''Play/Pause''), (18, ''FIST'', ''Previous Track''),
        (24, ''OPEN_PALM'', ''Play/Pause'')]"
proof -
  let ?S = "\<lparr>gesture_history = [''OPEN_PALM'', ''OPEN_PALM'', ''OPEN_PALM'',
                                 ''OPEN_PALM'', ''OPEN_PALM'', ''OPEN_PALM''],
             last_action_time = 6::real, last_triggered = Some ''OPEN_PALM''\<rparr>"
  let ?a = "[1, 2, 3, 4, 5, 6::real]" and ?b = "[7, 8, 9, 10, 11, 12::real]"
  let ?c = "[13, 14, 15, 16, 17, 18::real]" and ?d = "[19, 20, 21, 22, 23, 24::real]"
  note T = refire_suppression[of "\<lambda>_. True" ?S "[]" "[]" "''OPEN_PALM''"
              "[7, 8, 9, 10, 11, 12, 13]" ?a ?b ?c ?d]
  have h1: "length (gesture_history ?S) \<le> SMOOTHING_FRAMES \<and>
            last_triggered ?S = Some ''OPEN_PALM''"
    by (simp add: SMOOTHING_FRAMES_def)
  have h2: "length ?a = SMOOTHING_FRAMES \<and> length ?b = SMOOTHING_FRAMES \<and>
    length ?c = SMOOTHING_FRAMES \<and> length ?d = SMOOTHING_FRAMES \<and>
    last ?a - last_action_time initial_state > ACTION_COOLDOWN \<and>
    last ?c - last ?a > ACTION_COOLDOWN \<and> last ?d - last ?c > ACTION_COOLDOWN"
    by (simp add: SMOOTHING_FRAMES_def ACTION_COOLDOWN_def initial_state_def)
  have l: "last ?a = 6" "last ?c = 18" "last ?d = 24" by simp_all
  from T[THEN conjunct2, THEN conjunct2, THEN conjunct1, THEN mp, OF h1]
  have c1: "\<exists>st'. run (\<lambda>_. True) ?S (map (Pair (Some ''OPEN_PALM'')) [7, 8, 9, 10, 11, 12, 13])
              = Inr (st', [])" .
  from T[THEN conjunct2, THEN conjunct2, THEN conjunct2, THEN mp, OF h2]
  have c2: "map (\<lambda>d. (fired_at d, fired_gesture d, fired_desc d))
     (snd (projr (run (\<lambda>_. True) initial_state
        (map (Pair (Some ''OPEN_PALM'')) ?a @ map (Pair (Some ''OPEN_PALM'')) ?b @
         map (Pair (Some ''FIST'')) ?c @ map (Pair (Some ''OPEN_PALM'')) ?d))))
     = [(6, ''OPEN_PALM'', ''Play/Pause''), (18, ''FIST'', ''Previous Track''),
        (24, ''OPEN_PALM'', ''Play/Pause'')]"
    unfolding l by (elim conjE)
  from c1 c2 show ?thesis by (rule conjI)
qed

subsection \<open>The first dispatch\<close>

text \<open>
  Claim C4, as the code has it. The loop starts with \<open>last_action_time = 0\<close> and
  \<open>last_triggered = None\<close>. While no action has fired, a frame whose window is stable on
  one of the four named gestures dispatches exactly when its clock reading exceeds
  \<open>ACTION_COOLDOWN\<close>: the unset gesture compares unequal to every gesture, but the elapsed
  time is measured from 0, not taken as infinite. (A reading of \<^verbatim>\<open>time.time()\<close>, seconds
  since 1970, is above the cooldown.)
\<close>

theorem first_dispatch_needs_clock_above_cooldown:
  assumes "smoothing (deque_append SMOOTHING_FRAMES (gesture_history st) gesture) = Inr (g, True)"
    and "g \<in> {''OPEN_PALM'', ''FIST'', ''POINT'', ''THUMB_UP''}"
    and "last_action_time st = 0" and "last_triggered st = None"
  shows "(\<exists>st' d. update media_ok st (Some gesture) now = Inr (st', Some d) \<and>
            fired_at d = now \<and> fired_gesture d = g \<and>
            last_action_time st' = now \<and> last_triggered st' = Some g)
         \<longleftrightarrow> now > ACTION_COOLDOWN"
proof -
  obtain calls desc where p: "perform_action_for_gesture media_ok g = (calls, desc)"
    by (cases "perform_action_for_gesture media_ok g")
  have t: "truthy desc"
    using truthy_perform_action[of media_ok g] p assms(2) by simp
  show ?thesis
    using assms(1,3,4) p t
    by (simp add: update_def and_then_def Let_def)
qed

theorem first_dispatch_witness:
  "\<exists>st' d. update (\<lambda>_. True)
       \<lparr>gesture_history = [''POINT'', ''POINT'', ''POINT'', ''POINT'', ''POINT''],
        last_action_time = 0, last_triggered = None\<rparr> (Some ''POINT'') 1
       = Inr (st', Some d) \<and>
     fired_at d = 1 \<and> fired_gesture d = ''POINT'' \<and>
     last_action_time st' = 1 \<and> last_triggered st' = Some ''POINT''"
proof -
  let ?S = "\<lparr>gesture_history = [''POINT'', ''POINT'', ''POINT'', ''POINT'', ''POINT''],
        last_action_time = 0::real, last_triggered = None\<rparr>"
  have 1: "smoothing (deque_append SMOOTHING_FRAMES (gesture_history ?S) ''POINT'')
             = Inr (''POINT'', True)"
    by code_simp
  have 2: "''POINT'' \<in> {''OPEN_PALM'', ''FIST'', ''POINT'', ''THUMB_UP''}" by simp
  have 3: "last_action_time ?S = 0" "last_triggered ?S = None" by simp_all
  have 4: "(1::real) > ACTION_COOLDOWN" by (simp add: ACTION_COOLDOWN_def)
  from first_dispatch_needs_clock_above_cooldown[OF 1 2 3, of "\<lambda>_. True" 1, THEN iffD2, OF 4]
  show ?thesis .
qed

text \<open>
  With the clock at 0.5 the window is stable on \<open>POINT\<close> and nothing has fired yet, but no
  action is dispatched; likewise for six frames read within the first 0.6 seconds of the
  clock.
\<close>

theorem first_dispatch_counterexample:
  "smoothing (deque_append SMOOTHING_FRAMES
       [''POINT'', ''POINT'', ''POINT'', ''POINT'', ''POINT''] ''POINT'') = Inr (''POINT'', True) \<and>
   update (\<lambda>_. True)
       \<lparr>gesture_history = [''POINT'', ''POINT'', ''POINT'', ''POINT'', ''POINT''],
        last_action_time = 0, last_triggered = None\<rparr> (Some ''POINT'') 0.5
     = Inr (\<lparr>gesture_history = [''POINT'', ''POINT'', ''POINT'', ''POINT'', ''POINT'', ''POINT''],
             last_action_time = 0, last_triggered = None\<rparr>, None) \<and>
   run (\<lambda>_. True) initial_state
       (map (Pair (Some ''POINT'')) [0.1, 0.2, 0.3, 0.4, 0.5, 0.6])
     = Inr (\<lparr>gesture_history = [''POINT'', ''POINT'', ''POINT'', ''POINT'', ''POINT'', ''POINT''],
             last_action_time = 0, last_triggered = None\<rparr>, [])"
  by code_simp

subsection \<open>Frames that do not dispatch\<close>

text \<open>
  Claim C9. A frame without a hand, and a frame with a hand whose window is not stable, or
  whose clock reading is not more than the cooldown after the last action, or whose stable
  gesture is the one last triggered, dispatches nothing and changes only the window:
  \<open>last_action_time\<close> and \<open>last_triggered\<close> keep their values; in particular a suppressed
  frame of the same gesture does not refresh the cooldown.
\<close>

theorem suppressed_frame_keeps_dispatch_state:
  "update media_ok st None now =
      Inr (st\<lparr>gesture_history :=
                deque_append SMOOTHING_FRAMES (gesture_history st) ''UNKNOWN''\<rparr>, None) \<and>
   (smoothing (deque_append SMOOTHING_FRAMES (gesture_history st) gesture) = Inr (mc, is_stable) \<and>
    (\<not> is_stable \<or> \<not> now - last_action_time st > ACTION_COOLDOWN \<or>
     Some mc = last_triggered st) \<longrightarrow>
      (\<exists>st'. update media_ok st (Some gesture) now = Inr (st', None) \<and>
         st' = st\<lparr>gesture_history :=
                    deque_append SMOOTHING_FRAMES (gesture_history st) gesture\<rparr> \<and>
         last_action_time st' = last_action_time st \<and>
         last_triggered st' = last_triggered st))"
  by (auto simp: update_def and_then_def Let_def)

theorem suppressed_frame_witness:
  "update (\<lambda>_. True)
      \<lparr>gesture_history = [''FIST'', ''FIST'', ''FIST'', ''FIST'', ''FIST'', ''FIST''],
       last_action_time = 6, last_triggered = Some ''FIST''\<rparr> (Some ''FIST'') 100
   = Inr (\<lparr>gesture_history = [''FIST'', ''FIST'', ''FIST'', ''FIST'', ''FIST'', ''FIST''],
           last_action_time = 6, last_triggered = Some ''FIST''\<rparr>, None)"
proof -
  let ?S = "\<lparr>gesture_history = [''FIST'', ''FIST'', ''FIST'', ''FIST'', ''FIST'', ''FIST''],
       last_action_time = 6::real, last_triggered = Some ''FIST''\<rparr>"
  have w: "deque_append SMOOTHING_FRAMES (gesture_history ?S) ''FIST'' = gesture_history ?S"
    by code_simp
  have h: "smoothing (deque_append SMOOTHING_FRAMES (gesture_history ?S) ''FIST'')
             = Inr (''FIST'', True) \<and>
           (\<not> True \<or> \<not> 100 - last_action_time ?S > ACTION_COOLDOWN \<or>
            Some ''FIST'' = last_triggered ?S)"
    by code_simp
  from suppressed_frame_keeps_dispatch_state[of "\<lambda>_. True" ?S 100 "''FIST''" "''FIST''" True,
         THEN conjunct2, THEN mp, OF h]
  show ?thesis unfolding w by simp
qed

subsection \<open>The gesture last triggered\<close>

lemma run_last_triggered:
  assumes "run media_ok st inputs = Inr (st', actions)"
  shows "fired_gesture ` set actions \<subseteq> {''OPEN_PALM'', ''FIST'', ''POINT'', ''THUMB_UP''} \<and>
         (last_triggered st' = last_triggered st \<or>
          last_triggered st' \<in> Some ` {''OPEN_PALM'', ''FIST'', ''POINT'', ''THUMB_UP''})"
  using assms
proof (induction inputs arbitrary: st actions)
  case Nil
  then show ?case by simp
next
  case (Cons a inputs)
  obtain observed now where a: "a = (observed, now)" by (cases a)
  from Cons.prems[unfolded a] obtain st1 out actions1
    where u: "update media_ok st observed now = Inr (st1, out)"
      and r: "run media_ok st1 inputs = Inr (st', actions1)"
      and l: "actions = (case out of None \<Rightarrow> [] | Some d \<Rightarrow> [d]) @ actions1"
    by (rule run_Cons_Inr)
  note IH = Cons.IH[OF r]
  from update_effect[OF u] show ?case
  proof (elim disjE exE conjE)
    assume "out = None" "last_triggered st1 = last_triggered st"
    with IH l show ?thesis by auto
  next
    fix d
    assume d: "out = Some d"
      "fired_gesture d \<in> {''OPEN_PALM'', ''FIST'', ''POINT'', ''THUMB_UP''}"
      "last_triggered st1 = Some (fired_gesture d)"
    have "last_triggered st' \<in> Some ` {''OPEN_PALM'', ''FIST'', ''POINT'', ''THUMB_UP''}"
      using IH d(2,3) by (elim conjE disjE) simp_all
    moreover have "fired_gesture ` set actions \<subseteq> {''OPEN_PALM'', ''FIST'', ''POINT'', ''THUMB_UP''}"
      using IH d(1,2) l by simp
    ultimately show ?thesis by (intro conjI disjI2)
  qed
qed

lemma perform_action_None:
  "snd (perform_action_for_gesture media_ok g) = None \<longleftrightarrow>
     g \<notin> {''OPEN_PALM'', ''FIST'', ''POINT'', ''THUMB_UP''}"
  by (simp add: perform_action_for_gesture_def Let_def)

text \<open>
  Claim C10. In every state the loop reaches from its initial state, \<open>last_triggered\<close> is
  unset or one of \<open>OPEN_PALM\<close>, \<open>FIST\<close>, \<open>THUMB_UP\<close>, \<open>POINT\<close>, never \<open>UNKNOWN\<close>; once
  set it is never unset by later frames. The action mapping returns a description exactly
  for these four gestures, and the dispatch state is assigned only then.
\<close>

theorem last_triggered_invariant:
  "(\<exists>st1 actions1. run media_ok initial_state inputs = Inr (st1, actions1) \<and>
      last_triggered st1 \<in>
        {None, Some ''OPEN_PALM'', Some ''FIST'', Some ''THUMB_UP'', Some ''POINT''} \<and>
      last_triggered st1 \<noteq> Some ''UNKNOWN'' \<and>
      (\<exists>st2 actions2. run media_ok st1 later = Inr (st2, actions2) \<and>
         (last_triggered st1 \<noteq> None \<longrightarrow> last_triggered st2 \<noteq> None))) \<and>
   (\<forall>st1 actions1. main_loop media_ok initial_state frames = Inr (st1, actions1) \<longrightarrow>
      last_triggered st1 \<in>
        {None, Some ''OPEN_PALM'', Some ''FIST'', Some ''THUMB_UP'', Some ''POINT''} \<and>
      (\<forall>st2 actions2. main_loop media_ok st1 later_frames = Inr (st2, actions2) \<longrightarrow>
         last_triggered st1 \<noteq> None \<longrightarrow> last_triggered st2 \<noteq> None)) \<and>
   (snd (perform_action_for_gesture media_ok g) \<noteq> None \<longleftrightarrow>
      g \<in> {''OPEN_PALM'', ''FIST'', ''POINT'', ''THUMB_UP''})"
  (is "?run \<and> ?loop \<and> ?action")
proof -
  have inv: "last_triggered s1 \<in>
        {None, Some ''OPEN_PALM'', Some ''FIST'', Some ''THUMB_UP'', Some ''POINT''} \<and>
        last_triggered s1 \<noteq> Some ''UNKNOWN''"
    if "run media_ok initial_state ins = Inr (s1, a1)" for s1 a1 ins
    using run_last_triggered[OF that] by (auto simp: initial_state_def)
  have keep: "last_triggered s2 \<noteq> None"
    if "run media_ok s1 ins = Inr (s2, a2)" "last_triggered s1 \<noteq> None" for s1 s2 a2 ins
    using run_last_triggered[OF that(1)] that(2) by auto
  have ?run
  proof -
    from run_total obtain st1 actions1
      where r1: "run media_ok initial_state inputs = Inr (st1, actions1)" by blast
    from run_total obtain st2 actions2
      where r2: "run media_ok st1 later = Inr (st2, actions2)" by blast
    from inv[OF r1] keep[OF r2] r1 r2 show ?thesis by blast
  qed
  moreover have ?loop
  proof (intro allI impI conjI)
    fix st1 actions1
    assume "main_loop media_ok initial_state frames = Inr (st1, actions1)"
    then obtain ins where "run media_ok initial_state ins = Inr (st1, actions1)"
      by (rule main_loop_Inr)
    from inv[OF this]
    show "last_triggered st1 \<in>
        {None, Some ''OPEN_PALM'', Some ''FIST'', Some ''THUMB_UP'', Some ''POINT''}"
      by (rule conjunct1)
  next
    fix st1 actions1 st2 actions2
    assume "main_loop media_ok st1 later_frames = Inr (st2, actions2)"
      and n: "last_triggered st1 \<noteq> None"
    then obtain ins where "run media_ok st1 ins = Inr (st2, actions2)"
      by (elim main_loop_Inr)
    from keep[OF this n] show "last_triggered st2 \<noteq> None" .
  qed
  moreover have ?action
    using perform_action_None[of media_ok g] by simp
  ultimately show ?thesis by (intro conjI)
qed

theorem last_triggered_witness:
  "last_triggered (fst (projr (run (\<lambda>_. True) initial_state
      (map (Pair (Some ''OPEN_PALM'')) [1, 2, 3, 4, 5, 6] @
       map (Pair (Some ''FIST'')) [7, 8, 9, 10, 11, 12]))))
     \<in> {None, Some ''OPEN_PALM'', Some ''FIST'', Some ''THUMB_UP'', Some ''POINT''} \<and>
   last_triggered (fst (projr (run (\<lambda>_. True) initial_state
      (map (Pair (Some ''OPEN_PALM'')) [1, 2, 3, 4, 5, 6] @
       map (Pair (Some ''FIST'')) [7, 8, 9, 10, 11, 12])))) = Some ''FIST''"
proof -
  let ?inputs = "map (Pair (Some ''OPEN_PALM'')) [1, 2, 3, 4, 5, 6] @
       map (Pair (Some ''FIST'')) [7, 8, 9, 10, 11, 12::real]"
  have "\<exists>st1 actions1. run (\<lambda>_. True) initial_state ?inputs = Inr (st1, actions1) \<and>
      last_triggered st1 \<in>
        {None, Some ''OPEN_PALM'', Some ''FIST'', Some ''THUMB_UP'', Some ''POINT''} \<and>
      last_triggered st1 \<noteq> Some ''UNKNOWN'' \<and>
      (\<exists>st2 actions2. run (\<lambda>_. True) st1 [] = Inr (st2, actions2) \<and>
         (last_triggered st1 \<noteq> None \<longrightarrow> last_triggered st2 \<noteq> None))"
    by (rule last_triggered_invariant[THEN conjunct1])
  then obtain st1 actions1
    where r: "run (\<lambda>_. True) initial_state ?inputs = Inr (st1, actions1)"
      and i: "last_triggered st1 \<in>
        {None, Some ''OPEN_PALM'', Some ''FIST'', Some ''THUMB_UP'', Some ''POINT''}"
    by (elim exE conjE)
  from r have f: "fst (projr (run (\<lambda>_. True) initial_state ?inputs)) = st1" by simp
  have "last_triggered st1 = Some ''FIST''"
    using r unfolding run_example by auto
  with i show ?thesis unfolding f by simp
qed

subsection \<open>The window invariant\<close>

lemma detect_gesture_labels:
  "detect_gesture fingers = Inr g \<Longrightarrow>
     g \<in> {''OPEN_PALM'', ''FIST'', ''THUMB_UP'', ''POINT'', ''UNKNOWN''}"
  by (auto simp: detect_gesture_def split: if_splits)

lemma frame_gesture_labels:
  "frame_gesture fr = Inr (Some g) \<Longrightarrow>
     g \<in> {''OPEN_PALM'', ''FIST'', ''THUMB_UP'', ''POINT'', ''UNKNOWN''}"
  using detect_gesture_labels
  by (auto simp: frame_gesture_def and_then_def split: option.splits sum.splits)

lemma frame_gesture_None:
  "frame_gesture fr = Inr None \<longleftrightarrow> frame_hand fr = None"
  by (auto simp: frame_gesture_def and_then_def split: option.splits sum.splits)

lemma set_deque_append: "set (deque_append n d v) \<subseteq> insert v (set d)"
  by (cases d) (auto simp: deque_append_def Let_def)

lemma loop_body_window:
  assumes len: "length (gesture_history st) \<le> SMOOTHING_FRAMES"
    and lab: "set (gesture_history st) \<subseteq> {''OPEN_PALM'', ''FIST'', ''THUMB_UP'', ''POINT'', ''UNKNOWN''}"
    and body: "loop_body media_ok st fr = Inr (st', out)"
  shows "length (gesture_history st') \<le> SMOOTHING_FRAMES"
    and "set (gesture_history st') \<subseteq> {''OPEN_PALM'', ''FIST'', ''THUMB_UP'', ''POINT'', ''UNKNOWN''}"
    and "frame_hand fr = None \<Longrightarrow>
         gesture_history st' = deque_append SMOOTHING_FRAMES (gesture_history st) ''UNKNOWN''"
proof -
  from body obtain observed where fg: "frame_gesture fr = Inr observed"
    and u: "update media_ok st observed (frame_now fr) = Inr (st', out)"
    by (auto simp: loop_body_def and_then_def split: sum.splits)
  let ?v = "case observed of None \<Rightarrow> ''UNKNOWN'' | Some g \<Rightarrow> g"
  have h: "gesture_history st' = deque_append SMOOTHING_FRAMES (gesture_history st) ?v"
    using update_history[OF u] .
  have v: "?v \<in> {''OPEN_PALM'', ''FIST'', ''THUMB_UP'', ''POINT'', ''UNKNOWN''}"
  proof (cases observed)
    case None
    then show ?thesis by simp
  next
    case (Some g)
    with frame_gesture_labels[of fr g] fg show ?thesis by simp
  qed
  show "length (gesture_history st') \<le> SMOOTHING_FRAMES"
    unfolding h using len by (rule length_deque_append)
  show "set (gesture_history st') \<subseteq> {''OPEN_PALM'', ''FIST'', ''THUMB_UP'', ''POINT'', ''UNKNOWN''}"
  proof -
    define L where "L = {''OPEN_PALM'', ''FIST'', ''THUMB_UP'', ''POINT'', ''UNKNOWN''}"
    have "set (gesture_history st') \<subseteq> insert ?v (set (gesture_history st))"
      unfolding h by (rule set_deque_append)
    also have "\<dots> \<subseteq> L"
      using lab v unfolding L_def[symmetric] by (rule_tac insert_subsetI)
    finally show ?thesis unfolding L_def .
  qed
  show "gesture_history st' = deque_append SMOOTHING_FRAMES (gesture_history st) ''UNKNOWN''"
    if "frame_hand fr = None"
  proof -
    from that have "observed = None" using fg by (simp add: frame_gesture_def)
    then show ?thesis using h by simp
  qed
qed

lemma main_loop_window:
  assumes "main_loop media_ok st frames = Inr (st', actions)"
    and "length (gesture_history st) \<le> SMOOTHING_FRAMES"
    and "set (gesture_history st) \<subseteq> {''OPEN_PALM'', ''FIST'', ''THUMB_UP'', ''POINT'', ''UNKNOWN''}"
  shows "length (gesture_history st') \<le> SMOOTHING_FRAMES \<and>
    set (gesture_history st') \<subseteq> {''OPEN_PALM'', ''FIST'', ''THUMB_UP'', ''POINT'', ''UNKNOWN''}"
  using assms
proof (induction frames arbitrary: st actions)
  case Nil
  then show ?case by simp
next
  case (Cons fr frs)
  from Cons.prems(1) obtain s1 out actions1
    where b: "loop_body media_ok st fr = Inr (s1, out)"
      and m: "main_loop media_ok s1 frs = Inr (st', actions1)"
    by (auto simp: and_then_def split: sum.splits prod.splits)
  from Cons.IH[OF m loop_body_window(1,2)[OF Cons.prems(2,3) b]] show ?case .
qed

text \<open>
  Claim C8. The window of the initial state is within capacity and holds only gesture
  labels, and every iteration of the loop that returns preserves this: the window never
  holds more than \<open>SMOOTHING_FRAMES\<close> entries and each entry is one of \<open>OPEN_PALM\<close>,
  \<open>FIST\<close>, \<open>THUMB_UP\<close>, \<open>POINT\<close>, \<open>UNKNOWN\<close>. A frame without a hand appends \<open>UNKNOWN\<close>
  (the display text \<^verbatim>\<open>"No hand"\<close> never enters the window). Hence the same holds after
  any number of frames from the initial state.
\<close>

theorem window_invariant:
  "(length (gesture_history initial_state) \<le> SMOOTHING_FRAMES \<and>
    set (gesture_history initial_state)
      \<subseteq> {''OPEN_PALM'', ''FIST'', ''THUMB_UP'', ''POINT'', ''UNKNOWN''}) \<and>
   (length (gesture_history st) \<le> SMOOTHING_FRAMES \<and>
    set (gesture_history st) \<subseteq> {''OPEN_PALM'', ''FIST'', ''THUMB_UP'', ''POINT'', ''UNKNOWN''} \<and>
    loop_body media_ok st fr = Inr (st', out) \<longrightarrow>
      length (gesture_history st') \<le> SMOOTHING_FRAMES \<and>
      set (gesture_history st') \<subseteq> {''OPEN_PALM'', ''FIST'', ''THUMB_UP'', ''POINT'', ''UNKNOWN''} \<and>
      (frame_hand fr = None \<longrightarrow>
         gesture_history st' =
           deque_append SMOOTHING_FRAMES (gesture_history st) ''UNKNOWN'')) \<and>
   (\<forall>final actions. main_loop media_ok initial_state frames = Inr (final, actions) \<longrightarrow>
      length (gesture_history final) \<le> SMOOTHING_FRAMES \<and>
      set (gesture_history final)
        \<subseteq> {''OPEN_PALM'', ''FIST'', ''THUMB_UP'', ''POINT'', ''UNKNOWN''})"
  (is "?init \<and> ?step \<and> ?loop")
proof -
  have init: ?init by (simp add: initial_state_def)
  have step: ?step
  proof (intro impI, elim conjE, intro conjI impI)
    assume a: "length (gesture_history st) \<le> SMOOTHING_FRAMES"
      "set (gesture_history st) \<subseteq> {''OPEN_PALM'', ''FIST'', ''THUMB_UP'', ''POINT'', ''UNKNOWN''}"
      "loop_body media_ok st fr = Inr (st', out)"
    from loop_body_window(1)[OF a] show "length (gesture_history st') \<le> SMOOTHING_FRAMES" .
    from loop_body_window(2)[OF a]
    show "set (gesture_history st') \<subseteq> {''OPEN_PALM'', ''FIST'', ''THUMB_UP'', ''POINT'', ''UNKNOWN''}" .
    assume "frame_hand fr = None"
    from loop_body_window(3)[OF a this]
    show "gesture_history st' = deque_append SMOOTHING_FRAMES (gesture_history st) ''UNKNOWN''" .
  qed
  have loop: ?loop
  proof (intro allI impI)
    fix final actions
    assume "main_loop media_ok initial_state frames = Inr (final, actions)"
    from main_loop_window[OF this init[THEN conjunct1] init[THEN conjunct2]]
    show "length (gesture_history final) \<le> SMOOTHING_FRAMES \<and>
      set (gesture_history final)
        \<subseteq> {''OPEN_PALM'', ''FIST'', ''THUMB_UP'', ''POINT'', ''UNKNOWN''}" .
  qed
  show ?thesis by (rule conjI[OF init conjI[OF step loop]])
qed

theorem window_invariant_witness:
  "loop_body (\<lambda>_. True)
      \<lparr>gesture_history = [''FIST'', ''UNKNOWN'', ''POINT'', ''FIST'', ''FIST'', ''THUMB_UP''],
       last_action_time = 0, last_triggered = None\<rparr>
      \<lparr>frame_hand = Some \<lparr>landmark = map (\<lambda>i. \<lparr>px = 1 - real i / 20, py = 1 - real i / 20\<rparr>) [0..<21],
                           handedness = ''Right''\<rparr>,
       frame_now = 1\<rparr>
    = Inr (\<lparr>gesture_history = [''UNKNOWN'', ''POINT'', ''FIST'', ''FIST'', ''THUMB_UP'', ''OPEN_PALM''],
            last_action_time = 0, last_triggered = None\<rparr>, None) \<and>
   length [''UNKNOWN'', ''POINT'', ''FIST'', ''FIST'', ''THUMB_UP'', ''OPEN_PALM''] \<le> SMOOTHING_FRAMES \<and>
   set [''UNKNOWN'', ''POINT'', ''FIST'', ''FIST'', ''THUMB_UP'', ''OPEN_PALM'']
     \<subseteq> {''OPEN_PALM'', ''FIST'', ''THUMB_UP'', ''POINT'', ''UNKNOWN''}"
proof -
  let ?S = "\<lparr>gesture_history = [''FIST'', ''UNKNOWN'', ''POINT'', ''FIST'', ''FIST'', ''THUMB_UP''],
       last_action_time = 0::real, last_triggered = None\<rparr>"
  let ?F = "\<lparr>frame_hand = Some \<lparr>landmark = map (\<lambda>i. \<lparr>px = 1 - real i / 20, py = 1 - real i / 20\<rparr>) [0..<21],
                           handedness = ''Right''\<rparr>,
       frame_now = 1::real\<rparr>"
  let ?S' = "\<lparr>gesture_history = [''UNKNOWN'', ''POINT'', ''FIST'', ''FIST'', ''THUMB_UP'', ''OPEN_PALM''],
            last_action_time = 0::real, last_triggered = None\<rparr>"
  have e: "loop_body (\<lambda>_. True) ?S ?F = Inr (?S', None)"
    by code_simp
  have h1: "length (gesture_history ?S) \<le> SMOOTHING_FRAMES"
    by (simp add: SMOOTHING_FRAMES_def)
  have h2: "set (gesture_history ?S) \<subseteq> {''OPEN_PALM'', ''FIST'', ''THUMB_UP'', ''POINT'', ''UNKNOWN''}"
    by simp
  from window_invariant[of ?S "\<lambda>_. True" ?F ?S' None "[]", THEN conjunct2, THEN conjunct1,
         THEN mp, OF conjI[OF h1 conjI[OF h2 e]]]
  have "length (gesture_history ?S') \<le> SMOOTHING_FRAMES \<and>
    set (gesture_history ?S') \<subseteq> {''OPEN_PALM'', ''FIST'', ''THUMB_UP'', ''POINT'', ''UNKNOWN''}"
    by (elim conjE) (rule conjI)
  then have "length [''UNKNOWN'', ''POINT'', ''FIST'', ''FIST'', ''THUMB_UP'', ''OPEN_PALM''] \<le> SMOOTHING_FRAMES \<and>
   set [''UNKNOWN'', ''POINT'', ''FIST'', ''FIST'', ''THUMB_UP'', ''OPEN_PALM'']
     \<subseteq> {''OPEN_PALM'', ''FIST'', ''THUMB_UP'', ''POINT'', ''UNKNOWN''}"
    by (simp only: loop_state.simps)
  with e show ?thesis by (rule conjI)
qed

subsection \<open>The window after a sequence of frames\<close>

lemma deque_append_drop:
  "length d \<le> n \<Longrightarrow> deque_append n d v = drop (length (d @ [v]) - n) (d @ [v])"
proof (cases "length d < n")
  case True
  then show ?thesis by (simp add: deque_append_def Let_def)
next
  case False
  assume "length d \<le> n"
  with False have e: "length d = n" by simp
  then have k: "length (d @ [v]) - n = 1" by simp
  have "deque_append n d v = tl (d @ [v])"
    using e by (simp add: deque_append_def Let_def)
  also have "\<dots> = drop 1 (d @ [v])"
    by (cases d) simp_all
  finally show ?thesis unfolding k .
qed

lemma run_history:
  assumes "run media_ok st inputs = Inr (st', actions)"
    and "length (gesture_history st) \<le> SMOOTHING_FRAMES"
  shows "gesture_history st' =
           drop (length (gesture_history st) + length inputs - SMOOTHING_FRAMES)
             (gesture_history st @
              map (\<lambda>i. case fst i of None \<Rightarrow> ''UNKNOWN'' | Some g \<Rightarrow> g) inputs)"
  using assms
proof (induction inputs arbitrary: st actions)
  case Nil
  then show ?case by simp
next
  case (Cons a inputs)
  obtain observed now where a: "a = (observed, now)" by (cases a)
  from Cons.prems(1)[unfolded a] obtain st1 out actions1
    where u: "update media_ok st observed now = Inr (st1, out)"
      and r: "run media_ok st1 inputs = Inr (st', actions1)"
    by (rule run_Cons_Inr)
  let ?v = "case observed of None \<Rightarrow> ''UNKNOWN'' | Some g \<Rightarrow> g"
  let ?ls = "map (\<lambda>i. case fst i of None \<Rightarrow> ''UNKNOWN'' | Some g \<Rightarrow> g) inputs"
  let ?h = "gesture_history st"
  have h1: "gesture_history st1 = drop (length (?h @ [?v]) - SMOOTHING_FRAMES) (?h @ [?v])"
    using update_history[OF u] deque_append_drop[OF Cons.prems(2)] by simp
  have len1: "length (gesture_history st1) \<le> SMOOTHING_FRAMES"
    using update_history[OF u] length_deque_append[OF Cons.prems(2)] by simp
  have "gesture_history st' =
      drop (length (gesture_history st1) + length inputs - SMOOTHING_FRAMES)
        (gesture_history st1 @ ?ls)"
    using Cons.IH[OF r len1] .
  also have "\<dots> = drop (length ?h + length (a # inputs) - SMOOTHING_FRAMES) (?h @ ?v # ?ls)"
  proof (cases "length ?h < SMOOTHING_FRAMES")
    case True
    then show ?thesis unfolding h1 by simp
  next
    case False
    with Cons.prems(2) have e: "length ?h = SMOOTHING_FRAMES" by simp
    then obtain y ys where c: "?h = y # ys"
      by (cases ?h) (simp_all add: SMOOTHING_FRAMES_def)
    have "length (?h @ [?v]) - SMOOTHING_FRAMES = 1" using e by simp
    then have s1: "gesture_history st1 = ys @ [?v]" unfolding h1 by (simp add: c)
    have l1: "length (gesture_history st1) = SMOOTHING_FRAMES" using s1 e c by simp
    have "length (gesture_history st1) + length inputs - SMOOTHING_FRAMES = length inputs"
      using l1 by simp
    moreover have "length ?h + length (a # inputs) - SMOOTHING_FRAMES = Suc (length inputs)"
      using e by simp
    ultimately show ?thesis by (simp add: s1 c)
  qed
  finally show ?case by (simp add: a)
qed

lemma run_history_length:
  assumes "run media_ok st inputs = Inr (st', actions)"
    and "length (gesture_history st) \<le> SMOOTHING_FRAMES"
  shows "length (gesture_history st') \<le> SMOOTHING_FRAMES"
  unfolding run_history[OF assms] by simp

lemma run_fired_at_prefix:
  assumes "run media_ok st inputs = Inr (st', actions)" and "d \<in> set actions"
  shows "\<exists>n st1 a1. n < length inputs \<and>
           run media_ok st (take (Suc n) inputs) = Inr (st1, a1) \<and>
           smoothing (gesture_history st1) = Inr (fired_gesture d, True)"
  using assms
proof (induction inputs arbitrary: st actions)
  case Nil
  then show ?case by simp
next
  case (Cons a inputs)
  obtain observed now where a: "a = (observed, now)" by (cases a)
  from Cons.prems(1)[unfolded a] obtain st1 out actions1
    where u: "update media_ok st observed now = Inr (st1, out)"
      and r: "run media_ok st1 inputs = Inr (st', actions1)"
      and l: "actions = (case out of None \<Rightarrow> [] | Some d \<Rightarrow> [d]) @ actions1"
    by (rule run_Cons_Inr)
  from Cons.prems(2) l consider "out = Some d" | "d \<in> set actions1"
    by (auto split: option.splits)
  then show ?case
  proof cases
    case 1
    with update_effect[OF u]
    have "smoothing (gesture_history st1) = Inr (fired_gesture d, True)" by auto
    moreover have "run media_ok st (take (Suc 0) (a # inputs)) = Inr (st1, [d])"
      using u 1 by (simp add: a and_then_def)
    ultimately show ?thesis by (intro exI[of _ 0] exI conjI) simp_all
  next
    case 2
    from Cons.IH[OF r 2] obtain n st2 a2 where n: "n < length inputs"
      and p: "run media_ok st1 (take (Suc n) inputs) = Inr (st2, a2)"
      and s: "smoothing (gesture_history st2) = Inr (fired_gesture d, True)"
      by (elim exE conjE)
    have "run media_ok st (take (Suc (Suc n)) (a # inputs))
            = Inr (st2, (case out of None \<Rightarrow> [] | Some d \<Rightarrow> [d]) @ a2)"
      using u p by (simp add: a and_then_def)
    with n s show ?thesis by (intro exI[of _ "Suc n"] exI conjI) simp_all
  qed
qed

lemma broken_window_unstable:
  assumes len: "length h \<le> SMOOTHING_FRAMES"
    and brk: "(v = ''UNKNOWN'' \<and> length ls < SMOOTHING_FRAMES) \<or>
              (h \<noteq> [] \<and> v \<noteq> last h \<and> length ls + 1 < SMOOTHING_FRAMES)"
    and w: "drop (length h + Suc (length ls) - SMOOTHING_FRAMES) (h @ v # ls)
              = replicate SMOOTHING_FRAMES g"
  shows "g = ''UNKNOWN''"
proof -
  let ?k = "length h + Suc (length ls) - SMOOTHING_FRAMES"
  from brk have k: "?k \<le> length h" by auto
  then have e: "drop ?k (h @ v # ls) = drop ?k h @ v # ls" by simp
  have all: "\<And>y. y \<in> set (drop ?k h @ v # ls) \<Longrightarrow> y = g"
    using w unfolding e by (metis in_set_replicate)
  then have vg: "v = g" by simp
  from brk show ?thesis
  proof
    assume "v = ''UNKNOWN'' \<and> length ls < SMOOTHING_FRAMES"
    with vg show ?thesis by simp
  next
    assume b: "h \<noteq> [] \<and> v \<noteq> last h \<and> length ls + 1 < SMOOTHING_FRAMES"
    then have "0 < length h" by simp
    moreover have "length ls + 1 < SMOOTHING_FRAMES" using b by simp
    ultimately have "?k < length h" by arith
    then have "drop ?k h \<noteq> []" by simp
    then have "last (drop ?k h) \<in> set (drop ?k h)" by (rule last_in_set)
    moreover have "last (drop ?k h) = last h" using \<open>?k < length h\<close> by (rule last_drop)
    ultimately have "last h = g" using all by simp
    with vg b show ?thesis by simp
  qed
qed

lemma regained_window:
  fixes inputs :: "(string option \<times> real) list"
  assumes len: "length h \<le> SMOOTHING_FRAMES" and n: "SMOOTHING_FRAMES \<le> length inputs"
    and g: "g \<noteq> ''UNKNOWN''"
    and w: "drop (length h + length inputs - SMOOTHING_FRAMES)
              (h @ map (\<lambda>i. case fst i of None \<Rightarrow> ''UNKNOWN'' | Some g \<Rightarrow> g) inputs)
              = replicate SMOOTHING_FRAMES g"
  shows "map fst (drop (length inputs - SMOOTHING_FRAMES) inputs)
           = replicate SMOOTHING_FRAMES (Some g)"
proof -
  let ?lab = "\<lambda>i::string option \<times> real. case fst i of None \<Rightarrow> ''UNKNOWN'' | Some g \<Rightarrow> g"
  let ?tail = "drop (length inputs - SMOOTHING_FRAMES) inputs"
  have "length h + length inputs - SMOOTHING_FRAMES
          = length h + (length inputs - SMOOTHING_FRAMES)" using n by simp
  then have "map ?lab ?tail = replicate SMOOTHING_FRAMES g"
    using w by (simp add: drop_map)
  then have lab: "\<And>i. i \<in> set ?tail \<Longrightarrow> ?lab i = g"
    by (metis (no_types, lifting) image_eqI in_set_replicate set_map)
  have "fst i = Some g" if "i \<in> set ?tail" for i
  proof (cases "fst i")
    case None
    with lab[OF that] g show ?thesis by simp
  next
    case (Some g')
    with lab[OF that] show ?thesis by simp
  qed
  then have "map fst ?tail = map (\<lambda>_. Some g) ?tail"
    by (intro map_cong refl)
  also have "\<dots> = replicate (length ?tail) (Some g)"
    by (rule map_replicate_const)
  finally have "map fst ?tail = replicate (length ?tail) (Some g)" .
  moreover have "length ?tail = SMOOTHING_FRAMES" using n by simp
  ultimately show ?thesis by simp
qed

subsection \<open>Breaking and regaining the streak\<close>

text \<open>
  Claim C6, as the code has it. Take any window within its capacity and a frame that
  breaks the streak: a frame without a hand or classified \<open>UNKNOWN\<close> (both push
  \<open>UNKNOWN\<close>), or a frame whose gesture differs from the newest entry of the window.
  \<^item> The window is unstable, and nothing is dispatched, at the breaking frame and at the
    frames after it while fewer than \<open>SMOOTHING_FRAMES\<close> frames have been read from the
    breaking frame on: \<open>SMOOTHING_FRAMES - 1\<close> frames counting the breaking frame, that is
    the breaking frame and the next \<open>SMOOTHING_FRAMES - 2\<close>.
  \<^item> If the breaking frame pushed \<open>UNKNOWN\<close>, the same holds for one frame more: the
    breaking frame and the next \<open>SMOOTHING_FRAMES - 1\<close>.
  \<^item> Whenever the window is stable again on a gesture \<open>g\<close>, at least \<open>SMOOTHING_FRAMES\<close>
    frames have been read from the breaking frame on, and the last \<open>SMOOTHING_FRAMES\<close> of
    them all carry a hand classified \<open>g\<close>, with \<open>g\<close> not \<open>UNKNOWN\<close>.
\<close>

theorem streak_reset:
  assumes len: "length (gesture_history st) \<le> SMOOTHING_FRAMES"
    and brk: "observed = None \<or> observed = Some ''UNKNOWN'' \<or>
              (\<exists>g. observed = Some g \<and> gesture_history st \<noteq> [] \<and>
                   g \<noteq> last (gesture_history st))"
  shows "\<exists>st' actions. run media_ok st ((observed, now) # rest) = Inr (st', actions) \<and>
     (length rest + 1 < SMOOTHING_FRAMES \<longrightarrow>
        actions = [] \<and> (\<forall>g. smoothing (gesture_history st') \<noteq> Inr (g, True))) \<and>
     ((observed = None \<or> observed = Some ''UNKNOWN'') \<and> length rest < SMOOTHING_FRAMES \<longrightarrow>
        actions = [] \<and> (\<forall>g. smoothing (gesture_history st') \<noteq> Inr (g, True))) \<and>
     (\<forall>g. smoothing (gesture_history st') = Inr (g, True) \<longrightarrow>
        SMOOTHING_FRAMES \<le> length ((observed, now) # rest) \<and> g \<noteq> ''UNKNOWN'' \<and>
        map fst (drop (length ((observed, now) # rest) - SMOOTHING_FRAMES)
                   ((observed, now) # rest))
          = replicate SMOOTHING_FRAMES (Some g))"
proof -
  let ?h = "gesture_history st"
  let ?lab = "\<lambda>i::string option \<times> real. case fst i of None \<Rightarrow> ''UNKNOWN'' | Some g \<Rightarrow> g"
  let ?v = "case observed of None \<Rightarrow> ''UNKNOWN'' | Some g \<Rightarrow> g"
  let ?cond = "\<lambda>r::(string option \<times> real) list. length r + 1 < SMOOTHING_FRAMES \<or>
                 ((observed = None \<or> observed = Some ''UNKNOWN'') \<and> length r < SMOOTHING_FRAMES)"
  have unstable: "smoothing (gesture_history st1) \<noteq> Inr (g, True)"
    if r: "run media_ok st ((observed, now) # r') = Inr (st1, a1)" and c: "?cond r'"
    for r' st1 a1 g
  proof
    assume s: "smoothing (gesture_history st1) = Inr (g, True)"
    have "length (gesture_history st1) \<le> SMOOTHING_FRAMES"
      using r len by (rule run_history_length)
    from smoothing_stable_iff[OF this, of g] s
    have w: "gesture_history st1 = replicate SMOOTHING_FRAMES g" and g: "g \<noteq> ''UNKNOWN''"
      by simp_all
    have "drop (length ?h + Suc (length (map ?lab r')) - SMOOTHING_FRAMES)
            (?h @ ?v # map ?lab r') = replicate SMOOTHING_FRAMES g"
      using run_history[OF r len] w by simp
    moreover have "(?v = ''UNKNOWN'' \<and> length (map ?lab r') < SMOOTHING_FRAMES) \<or>
              (?h \<noteq> [] \<and> ?v \<noteq> last ?h \<and> length (map ?lab r') + 1 < SMOOTHING_FRAMES)"
      using brk c by auto
    ultimately have "g = ''UNKNOWN''"
      using broken_window_unstable[OF len] by blast
    with g show False by simp
  qed
  from run_total obtain st' actions
    where r: "run media_ok st ((observed, now) # rest) = Inr (st', actions)" by blast
  have quiet: "actions = []" if c: "?cond rest"
  proof (rule ccontr)
    assume "actions \<noteq> []"
    then obtain d where "d \<in> set actions" by (cases actions) auto
    from run_fired_at_prefix[OF r this] obtain n st1 a1
      where n: "n < length ((observed, now) # rest)"
        and p: "run media_ok st (take (Suc n) ((observed, now) # rest)) = Inr (st1, a1)"
        and s: "smoothing (gesture_history st1) = Inr (fired_gesture d, True)"
      by (elim exE conjE)
    from p have p': "run media_ok st ((observed, now) # take n rest) = Inr (st1, a1)" by simp
    have "?cond (take n rest)" using c by auto
    from unstable[OF p' this, of "fired_gesture d"] s show False by simp
  qed
  have regain: "SMOOTHING_FRAMES \<le> length ((observed, now) # rest) \<and> g \<noteq> ''UNKNOWN'' \<and>
        map fst (drop (length ((observed, now) # rest) - SMOOTHING_FRAMES)
                   ((observed, now) # rest))
          = replicate SMOOTHING_FRAMES (Some g)"
    if s: "smoothing (gesture_history st') = Inr (g, True)" for g
  proof -
    have "\<not> ?cond rest"
    proof
      assume "?cond rest"
      from unstable[OF r this, of g] s show False by simp
    qed
    then have n: "SMOOTHING_FRAMES \<le> length ((observed, now) # rest)" by simp
    have "length (gesture_history st') \<le> SMOOTHING_FRAMES"
      using r len by (rule run_history_length)
    from smoothing_stable_iff[OF this, of g] s
    have w: "gesture_history st' = replicate SMOOTHING_FRAMES g" and g: "g \<noteq> ''UNKNOWN''"
      by simp_all
    have "drop (length ?h + length ((observed, now) # rest) - SMOOTHING_FRAMES)
            (?h @ map ?lab ((observed, now) # rest)) = replicate SMOOTHING_FRAMES g"
      using run_history[OF r len] w by simp
    from regained_window[OF len n g this] n g show ?thesis by (intro conjI)
  qed
  show ?thesis
  proof (intro exI conjI impI allI)
    show "run media_ok st ((observed, now) # rest) = Inr (st', actions)" by (rule r)
  next
    assume "length rest + 1 < SMOOTHING_FRAMES"
    then show "actions = []" using quiet by simp
  next
    fix g assume "length rest + 1 < SMOOTHING_FRAMES"
    then show "smoothing (gesture_history st') \<noteq> Inr (g, True)" using unstable[OF r] by simp
  next
    assume "(observed = None \<or> observed = Some ''UNKNOWN'') \<and> length rest < SMOOTHING_FRAMES"
    then show "actions = []" using quiet by simp
  next
    fix g assume "(observed = None \<or> observed = Some ''UNKNOWN'') \<and> length rest < SMOOTHING_FRAMES"
    then show "smoothing (gesture_history st') \<noteq> Inr (g, True)" using unstable[OF r] by simp
  next
    fix g assume "smoothing (gesture_history st') = Inr (g, True)"
    from regain[OF this]
    show "SMOOTHING_FRAMES \<le> length ((observed, now) # rest)" and "g \<noteq> ''UNKNOWN''"
      and "map fst (drop (length ((observed, now) # rest) - SMOOTHING_FRAMES)
                   ((observed, now) # rest))
          = replicate SMOOTHING_FRAMES (Some g)"
      by simp_all
  qed
qed

theorem streak_reset_witness:
  "snd (projr (run (\<lambda>_. True)
      \<lparr>gesture_history = [''FIST'', ''FIST'', ''FIST'', ''FIST'', ''FIST'', ''FIST''],
       last_action_time = 6, last_triggered = Some ''FIST''\<rparr>
      ((Some ''POINT'', 7) # map (Pair (Some ''POINT'')) [8, 9, 10, 11]))) = [] \<and>
   snd (projr (run (\<lambda>_. True)
      \<lparr>gesture_history = [''FIST'', ''FIST'', ''FIST'', ''FIST'', ''FIST'', ''FIST''],
       last_action_time = 6, last_triggered = Some ''FIST''\<rparr>
      ((None, 7) # map (Pair (Some ''POINT'')) [8, 9, 10, 11, 12]))) = []"
proof -
  let ?S = "\<lparr>gesture_history = [''FIST'', ''FIST'', ''FIST'', ''FIST'', ''FIST'', ''FIST''],
       last_action_time = 6::real, last_triggered = Some ''FIST''\<rparr>"
  let ?r4 = "map (Pair (Some ''POINT'')) [8, 9, 10, 11::real]"
  let ?r5 = "map (Pair (Some ''POINT'')) [8, 9, 10, 11, 12::real]"
  have len: "length (gesture_history ?S) \<le> SMOOTHING_FRAMES"
    by (simp add: SMOOTHING_FRAMES_def)
  have b1: "Some ''POINT'' = None \<or> Some ''POINT'' = Some ''UNKNOWN'' \<or>
      (\<exists>g. Some ''POINT'' = Some g \<and> gesture_history ?S \<noteq> [] \<and> g \<noteq> last (gesture_history ?S))"
    by simp
  have b2: "(None::string option) = None \<or> None = Some ''UNKNOWN'' \<or>
      (\<exists>g. None = Some g \<and> gesture_history ?S \<noteq> [] \<and> g \<noteq> last (gesture_history ?S))"
    by simp
  from streak_reset[OF len b1, of "\<lambda>_. True" 7 ?r4]
  obtain s1 a1 where r1: "run (\<lambda>_. True) ?S ((Some ''POINT'', 7) # ?r4) = Inr (s1, a1)"
    and c1: "length ?r4 + 1 < SMOOTHING_FRAMES \<longrightarrow>
        a1 = [] \<and> (\<forall>g. smoothing (gesture_history s1) \<noteq> Inr (g, True))"
    by (elim exE conjE)
  have "length ?r4 + 1 < SMOOTHING_FRAMES" by (simp add: SMOOTHING_FRAMES_def)
  from c1[THEN mp, OF this] have "a1 = []" by (rule conjunct1)
  with r1 have 1: "snd (projr (run (\<lambda>_. True) ?S ((Some ''POINT'', 7) # ?r4))) = []"
    by simp
  from streak_reset[OF len b2, of "\<lambda>_. True" 7 ?r5]
  obtain s2 a2 where r2: "run (\<lambda>_. True) ?S ((None, 7) # ?r5) = Inr (s2, a2)"
    and c2: "((None::string option) = None \<or> None = Some ''UNKNOWN'') \<and> length ?r5 < SMOOTHING_FRAMES \<longrightarrow>
        a2 = [] \<and> (\<forall>g. smoothing (gesture_history s2) \<noteq> Inr (g, True))"
    by (elim exE conjE) (rule that)
  have "((None::string option) = None \<or> None = Some ''UNKNOWN'') \<and> length ?r5 < SMOOTHING_FRAMES"
    by (simp add: SMOOTHING_FRAMES_def)
  from c2[THEN mp, OF this] have "a2 = []" by (rule conjunct1)
  with r2 have 2: "snd (projr (run (\<lambda>_. True) ?S ((None, 7) # ?r5))) = []"
    by simp
  from 1 2 show ?thesis by (rule conjI)
qed

text \<open>
  A breaking frame with a named gesture is itself the first frame of the new streak: on a
  window of six \<open>FIST\<close>, a frame of \<open>POINT\<close> followed by five more is stable, and fires,
  at the fifth frame after the breaking one.
\<close>

theorem streak_reset_counterexample:
  "run (\<lambda>_. True)
      \<lparr>gesture_history = [''FIST'', ''FIST'', ''FIST'', ''FIST'', ''FIST'', ''FIST''],
       last_action_time = 6, last_triggered = Some ''FIST''\<rparr>
      ((Some ''POINT'', 7) # map (Pair (Some ''POINT'')) [8, 9, 10, 11, 12])
   = Inr (\<lparr>gesture_history = [''POINT'', ''POINT'', ''POINT'', ''POINT'', ''POINT'', ''POINT''],
           last_action_time = 12, last_triggered = Some ''POINT''\<rparr>,
          [\<lparr>fired_at = 12, fired_gesture = ''POINT'', fired_desc = ''Next Track'',
            fired_calls = [Media_Key ''media_next'']\<rparr>]) \<and>
   smoothing [''POINT'', ''POINT'', ''POINT'', ''POINT'', ''POINT'', ''POINT'']
     = Inr (''POINT'', True)"
  by code_simp

subsection \<open>The classifier\<close>

lemma finger_vectors:
  "{fs::int list. length fs = 5 \<and> set fs \<subseteq> {0, 1}} = set (List.n_lists 5 [0, 1])"
  by (auto simp: set_n_lists)

lemma distinct_finger_vectors: "distinct (List.n_lists 5 [0, 1::int])"
  by (rule distinct_n_lists) simp

lemma detect_gesture_5:
  "length fs = 5 \<Longrightarrow> detect_gesture fs =
     Inr (if fs = [1, 1, 1, 1, 1] then ''OPEN_PALM''
          else if fs = [0, 0, 0, 0, 0] then ''FIST''
          else if fs = [1, 0, 0, 0, 0] then ''THUMB_UP''
          else if fs = [0, 1, 0, 0, 0] then ''POINT''
          else ''UNKNOWN'')"
  by (simp add: detect_gesture_def)

lemma count_unknown_vectors:
  "length (filter (\<lambda>fs. detect_gesture fs = Inr ''UNKNOWN'') (List.n_lists 5 [0, 1])) = 28"
  by code_simp

lemma named_vectors:
  "filter (\<lambda>fs. detect_gesture fs \<noteq> Inr ''UNKNOWN'') (List.n_lists 5 [0, 1])
     = [[0, 0, 0, 0, 0], [1, 0, 0, 0, 0], [0, 1, 0, 0, 0], [1, 1, 1, 1, 1]]"
  by code_simp

text \<open>
  Claim C5. On every list of five finger states the classifier returns a label, by exact
  match: \<open>[1,1,1,1,1]\<close> is \<open>OPEN_PALM\<close>, \<open>[0,0,0,0,0]\<close> is \<open>FIST\<close>, \<open>[1,0,0,0,0]\<close> is
  \<open>THUMB_UP\<close>, \<open>[0,1,0,0,0]\<close> is \<open>POINT\<close>, anything else is \<open>UNKNOWN\<close>. There are 32 vectors
  of five 0/1 finger states; exactly those four get a named gesture and the other 28 get
  \<open>UNKNOWN\<close>.
\<close>

theorem detect_gesture_table:
  "(\<forall>fs. length fs = 5 \<longrightarrow>
      detect_gesture fs =
        Inr (if fs = [1, 1, 1, 1, 1] then ''OPEN_PALM''
             else if fs = [0, 0, 0, 0, 0] then ''FIST''
             else if fs = [1, 0, 0, 0, 0] then ''THUMB_UP''
             else if fs = [0, 1, 0, 0, 0] then ''POINT''
             else ''UNKNOWN'')) \<and>
   detect_gesture [1, 1, 1, 1, 1] = Inr ''OPEN_PALM'' \<and>
   detect_gesture [0, 0, 0, 0, 0] = Inr ''FIST'' \<and>
   detect_gesture [1, 0, 0, 0, 0] = Inr ''THUMB_UP'' \<and>
   detect_gesture [0, 1, 0, 0, 0] = Inr ''POINT'' \<and>
   card {fs::int list. length fs = 5 \<and> set fs \<subseteq> {0, 1}} = 32 \<and>
   {fs. length fs = 5 \<and> set fs \<subseteq> {0, 1} \<and> detect_gesture fs \<noteq> Inr ''UNKNOWN''}
     = {[1, 1, 1, 1, 1], [0, 0, 0, 0, 0], [1, 0, 0, 0, 0], [0, 1, 0, 0, 0]} \<and>
   card {fs. length fs = 5 \<and> set fs \<subseteq> {0, 1} \<and> detect_gesture fs = Inr ''UNKNOWN''} = 28"
proof (intro conjI allI impI)
  fix fs :: "int list" assume "length fs = 5"
  then show "detect_gesture fs =
        Inr (if fs = [1, 1, 1, 1, 1] then ''OPEN_PALM''
             else if fs = [0, 0, 0, 0, 0] then ''FIST''
             else if fs = [1, 0, 0, 0, 0] then ''THUMB_UP''
             else if fs = [0, 1, 0, 0, 0] then ''POINT''
             else ''UNKNOWN'')"
    by (rule detect_gesture_5)
next
  show "detect_gesture [1, 1, 1, 1, 1] = Inr ''OPEN_PALM''"
    and "detect_gesture [0, 0, 0, 0, 0] = Inr ''FIST''"
    and "detect_gesture [1, 0, 0, 0, 0] = Inr ''THUMB_UP''"
    and "detect_gesture [0, 1, 0, 0, 0] = Inr ''POINT''"
    by (simp_all add: detect_gesture_def)
next
  have "card (set (List.n_lists 5 [0, 1::int])) = length (List.n_lists 5 [0, 1::int])"
    using distinct_finger_vectors by (rule distinct_card)
  also have "\<dots> = 32" by code_simp
  finally show "card {fs::int list. length fs = 5 \<and> set fs \<subseteq> {0, 1}} = 32"
    unfolding finger_vectors .
next
  have "{fs. length fs = 5 \<and> set fs \<subseteq> {0, 1} \<and> detect_gesture fs \<noteq> Inr ''UNKNOWN''}
      = set (filter (\<lambda>fs. detect_gesture fs \<noteq> Inr ''UNKNOWN'') (List.n_lists 5 [0, 1]))"
    using finger_vectors by auto
  also have "\<dots> = {[1, 1, 1, 1, 1], [0, 0, 0, 0, 0], [1, 0, 0, 0, 0], [0, 1, 0, 0, 0]}"
    unfolding named_vectors by auto
  finally show "{fs. length fs = 5 \<and> set fs \<subseteq> {0, 1} \<and> detect_gesture fs \<noteq> Inr ''UNKNOWN''}
     = {[1, 1, 1, 1, 1], [0, 0, 0, 0, 0], [1, 0, 0, 0, 0], [0, 1, 0, 0, 0]}" .
next
  have "{fs. length fs = 5 \<and> set fs \<subseteq> {0, 1} \<and> detect_gesture fs = Inr ''UNKNOWN''}
      = set (filter (\<lambda>fs. detect_gesture fs = Inr ''UNKNOWN'') (List.n_lists 5 [0, 1]))"
    using finger_vectors by auto
  moreover have "card (set (filter (\<lambda>fs. detect_gesture fs = Inr ''UNKNOWN'') (List.n_lists 5 [0, 1])))
      = length (filter (\<lambda>fs. detect_gesture fs = Inr ''UNKNOWN'') (List.n_lists 5 [0, 1]))"
    using distinct_finger_vectors by (intro distinct_card distinct_filter)
  ultimately show "card {fs. length fs = 5 \<and> set fs \<subseteq> {0, 1} \<and> detect_gesture fs = Inr ''UNKNOWN''} = 28"
    using count_unknown_vectors by simp
qed

theorem detect_gesture_table_witness:
  "length [1, 0, 1, 0, 1::int] = 5 \<and> detect_gesture [1, 0, 1, 0, 1] = Inr ''UNKNOWN''"
proof -
  have h: "length [1, 0, 1, 0, 1::int] = 5" by simp
  from detect_gesture_table[THEN conjunct1, THEN spec, THEN mp, OF h]
  have "detect_gesture [1, 0, 1, 0, 1] = Inr ''UNKNOWN''" by simp
  with h show ?thesis by (rule conjI)
qed

subsection \<open>The finger-state extractor\<close>

text \<open>
  Claim C7. For a hand with 21 landmarks and handedness \<open>Right\<close> or \<open>Left\<close> the extractor
  returns five finger states: the thumb is up exactly when the hand is \<open>Right\<close> and the tip
  (landmark 4) has a smaller x than the adjacent joint (landmark 3), or the hand is \<open>Left\<close>
  and the tip has a larger x; each other finger is up exactly when its tip (8, 12, 16, 20)
  has a smaller y than its pip joint (6, 10, 14, 18). The comparisons are strict: equal
  coordinates give 0.
\<close>

theorem fingers_up_strict_comparisons:
  assumes "length lm = 21"
    and "handedness_label = ''Right'' \<or> handedness_label = ''Left''"
  shows "\<exists>fingers. fingers_up lm handedness_label = Inr fingers \<and>
     fingers =
       [if (handedness_label = ''Right'' \<and> px (lm ! 4) < px (lm ! 3)) \<or>
           (handedness_label = ''Left'' \<and> px (lm ! 4) > px (lm ! 3)) then 1 else 0,
        if py (lm ! 8) < py (lm ! 6) then 1 else 0,
        if py (lm ! 12) < py (lm ! 10) then 1 else 0,
        if py (lm ! 16) < py (lm ! 14) then 1 else 0,
        if py (lm ! 20) < py (lm ! 18) then 1 else 0] \<and>
     (px (lm ! 4) = px (lm ! 3) \<longrightarrow> fingers ! 0 = 0) \<and>
     (py (lm ! 8) = py (lm ! 6) \<longrightarrow> fingers ! 1 = 0) \<and>
     (py (lm ! 12) = py (lm ! 10) \<longrightarrow> fingers ! 2 = 0) \<and>
     (py (lm ! 16) = py (lm ! 14) \<longrightarrow> fingers ! 3 = 0) \<and>
     (py (lm ! 20) = py (lm ! 18) \<longrightarrow> fingers ! 4 = 0)"
proof -
  have r: "fingers_up lm ''Right'' = Inr
       [if px (lm ! 4) < px (lm ! 3) then 1 else 0,
        if py (lm ! 8) < py (lm ! 6) then 1 else 0,
        if py (lm ! 12) < py (lm ! 10) then 1 else 0,
        if py (lm ! 16) < py (lm ! 14) then 1 else 0,
        if py (lm ! 20) < py (lm ! 18) then 1 else 0]"
    using assms(1) by (simp add: fingers_up_def and_then_def TIP_IDS_def lm_at_def)
  have l: "fingers_up lm ''Left'' = Inr
       [if px (lm ! 4) > px (lm ! 3) then 1 else 0,
        if py (lm ! 8) < py (lm ! 6) then 1 else 0,
        if py (lm ! 12) < py (lm ! 10) then 1 else 0,
        if py (lm ! 16) < py (lm ! 14) then 1 else 0,
        if py (lm ! 20) < py (lm ! 18) then 1 else 0]"
    using assms(1) by (simp add: fingers_up_def and_then_def TIP_IDS_def lm_at_def)
  from assms(2) show ?thesis
  proof
    assume "handedness_label = ''Right''"
    then show ?thesis using r by simp
  next
    assume "handedness_label = ''Left''"
    then show ?thesis using l by simp
  qed
qed

theorem fingers_up_witness:
  "fingers_up (map (\<lambda>i. \<lparr>px = 1 - real i / 20, py = (if i = 20 then 1 / 10 else 1 - real i / 20)\<rparr>)
                   [0..<21]) ''Right''
     = Inr [1, 1, 1, 1, 0]"
proof -
  let ?lm = "map (\<lambda>i. \<lparr>px = 1 - real i / 20, py = (if i = 20 then 1 / 10 else 1 - real i / 20)\<rparr>)
                   [0..<21]"
  have h1: "length ?lm = 21" by simp
  have h2: "''Right'' = ''Right'' \<or> ''Right'' = ''Left''" by simp
  from fingers_up_strict_comparisons[OF h1 h2]
  obtain fingers where f: "fingers_up ?lm ''Right'' = Inr fingers"
    and v: "fingers =
       [if (''Right'' = ''Right'' \<and> px (?lm ! 4) < px (?lm ! 3)) \<or>
           (''Right'' = ''Left'' \<and> px (?lm ! 4) > px (?lm ! 3)) then 1 else 0,
        if py (?lm ! 8) < py (?lm ! 6) then 1 else 0,
        if py (?lm ! 12) < py (?lm ! 10) then 1 else 0,
        if py (?lm ! 16) < py (?lm ! 14) then 1 else 0,
        if py (?lm ! 20) < py (?lm ! 18) then 1 else 0]"
    by (elim exE conjE) (rule that)
  have "fingers = [1, 1, 1, 1, 0]"
    unfolding v by simp
  with f show ?thesis by simp
qed

end
